theory Spec2Isabelle
  imports Main "HOL-Library.Sublist"
begin

section \<open>The rules engine, as the server uses it\<close>

text \<open>
  \<^verbatim>\<open>server/main.go\<close> drives one \<^verbatim>\<open>*chess.Game\<close> of the library
  \<^verbatim>\<open>github.com/notnil/chess\<close>. The library is not part of the repository, so
  the model takes it as a parameter: a record of the four operations the server calls.
  \<^verbatim>\<open>game.MoveStr(move)\<close> either returns an error and leaves the game as it was
  (\<open>Inl\<close>) or plays the move (\<open>Inr\<close> the game after it). An outcome is one of the
  library's four constants; \<open>Outcome_String\<close> is their text.
\<close>

datatype Outcome = NoOutcome | WhiteWon | BlackWon | Draw

fun Outcome_String :: "Outcome \<Rightarrow> string" where
  "Outcome_String NoOutcome = ''*''"
| "Outcome_String WhiteWon = ''1-0''"
| "Outcome_String BlackWon = ''0-1''"
| "Outcome_String Draw = ''1/2-1/2''"

record 'g chess =
  chess_NewGame :: 'g
  chess_MoveStr :: "'g \<Rightarrow> string \<Rightarrow> string + 'g"
  chess_Outcome :: "'g \<Rightarrow> Outcome"
  chess_FEN :: "'g \<Rightarrow> string"

section \<open>Data\<close>

text \<open>
  The struct \<^verbatim>\<open>GameState\<close>. No code assigns \<^verbatim>\<open>ID\<close>, so it keeps Go's zero
  value. \<^verbatim>\<open>CreatedAt\<close> holds the wall-clock time of construction; no decision of
  the program reads it and it is left out.
\<close>

record GameState =
  ID :: int
  FEN :: string
  LastMove :: string
  LastPlayer :: string
  MoveHistory :: "string list"
  GameOutcome :: string

text \<open>
  A row of the table \<^verbatim>\<open>game_states\<close>, in the column order of the INSERT:
  fen, last\_move, last\_player, move\_history, game\_outcome.
\<close>

type_synonym row = "string \<times> string \<times> string \<times> string \<times> string"

text \<open>\<^verbatim>\<open>strings.Join(elems, sep)\<close>.\<close>

fun Join :: "string list \<Rightarrow> string \<Rightarrow> string" where
  "Join [] sep = ''''"
| "Join [x] sep = x"
| "Join (x # y # ys) sep = x @ sep @ Join (y # ys) sep"

definition row_of :: "GameState \<Rightarrow> row" where
  "row_of g = (FEN g, LastMove g, LastPlayer g, Join (MoveHistory g) '','', GameOutcome g)"

text \<open>
  The package-level variables. \<open>db\<close> is \<open>None\<close> for a nil handle and otherwise the
  rows inserted so far. \<open>gameStateChannel\<close> is the buffer of the channel that
  \<^verbatim>\<open>main\<close> makes with capacity 100, oldest element first.
\<close>

record 'g globals =
  db :: "row list option"
  game :: 'g
  moveHistory :: "string list"
  gameStateChannel :: "GameState list"
  lastMove :: string

definition channel_capacity :: nat where
  "channel_capacity = 100"

section \<open>What the outside world does during one pass of the game loop\<close>

text \<open>
  The two provider adapters (\<^verbatim>\<open>getOpenAIMove\<close>, \<^verbatim>\<open>getAnthropicMove\<close>) are
  network calls: what the call of attempt \<open>k\<close> gets back is an input. Either the
  call fails (\<open>Failure\<close>, with the text of the error that the adapter returns for it:
  the error of \<^verbatim>\<open>CreateChatCompletion\<close>, or for Anthropic a request that cannot be
  sent, a body that cannot be read or decoded, a status other than 200), or it
  delivers a decoded reply (\<open>Answer\<close>): the texts of \<^verbatim>\<open>resp.Choices\<close>, respectively
  of the blocks of \<^verbatim>\<open>anthropicResp.Content\<close>, in their order. A reply can hold no
  text at all. The result of \<^verbatim>\<open>db.Exec\<close> (\<open>Some\<close> its error) is an input too, and
  so is the number of snapshots that the observer tasks have taken off the channel by
  the time of each send.
\<close>

datatype reply = Failure string | Answer "string list"

record env =
  openai_reply :: "nat \<Rightarrow> reply"
  anthropic_reply :: "nat \<Rightarrow> reply"
  exec_error :: "string option"
  received_before_save :: nat
  received_before_send :: nat

section \<open>Observable events\<close>

text \<open>
  The effects and log lines of the loop, in program order. \<open>Exec\<close> is the INSERT of
  \<^verbatim>\<open>saveGameState\<close> with the snapshot it writes and its error; \<open>ChanSend\<close> is a
  \<^verbatim>\<open>select\<close> on the channel with a \<^verbatim>\<open>default\<close> branch, \<open>True\<close> when the
  snapshot was sent. \<open>Panicked\<close> is the report of the Go runtime for a panic that
  has reached the top of the goroutine of \<^verbatim>\<open>playGame\<close>: the process exits with it.
\<close>

datatype send_site = AfterSave | InLoop

datatype event =
    StartingMove nat string
  | GetMove string string bool string
  | ErrorGettingMove string nat string
  | InvalidMove string string string
  | AppliedMove string string
  | Exec GameState "string option"
  | ChanSend send_site GameState bool
  | ErrorMakingMove string string
  | Sleep nat
  | GameOver string
  | ErrorSavingFinal string
  | StartingNewGame
  | Panicked string

section \<open>The channel\<close>

text \<open>
  \<^verbatim>\<open>select { case gameStateChannel <- x: ... default: ... }\<close>. A send on a buffered
  channel can proceed when the buffer has room (a receiver that waits implies an empty
  buffer); otherwise the send would block, which is \<open>None\<close> here, and the
  \<^verbatim>\<open>select\<close> takes its \<^verbatim>\<open>default\<close> branch. A receive takes the oldest
  snapshot off the buffer; where the game loop sends, the buffer is the one it last
  left, less the snapshots that the observer tasks have received since
  (\<open>drop n\<close>, with \<open>n\<close> from the environment).
\<close>

definition chan_send :: "GameState list \<Rightarrow> GameState \<Rightarrow> GameState list option" where
  "chan_send ch x = (if length ch < channel_capacity then Some (ch @ [x]) else None)"

definition select_send :: "GameState list \<Rightarrow> GameState \<Rightarrow> GameState list \<times> bool" where
  "select_send ch x = (case chan_send ch x of Some ch' \<Rightarrow> (ch', True) | None \<Rightarrow> (ch, False))"

section \<open>The functions of the game loop\<close>

definition initGame :: "'g chess \<Rightarrow> 'g globals \<Rightarrow> 'g globals" where
  "initGame L s = s\<lparr>game := chess_NewGame L, moveHistory := [], lastMove := ''''\<rparr>"

text \<open>
  A call of a Go function that returns an \<^verbatim>\<open>error\<close> can end in three ways: it
  returns nil, it returns an error with a text (\<open>Error\<close>), or it does not return
  because it panics (\<open>Panic\<close>, with the message of the runtime). No code of the server
  recovers from a panic in the goroutine of \<^verbatim>\<open>playGame\<close>, so each caller passes a
  panic on as it is.
\<close>

datatype error = Error string | Panic string

text \<open>
  \<^verbatim>\<open>strings.TrimSpace\<close>, on ASCII text: it cuts the leading and trailing
  white space, which is tab, line feed, vertical tab, form feed, carriage return and
  space.
\<close>

definition isSpace :: "char \<Rightarrow> bool" where
  "isSpace c = (c \<in> set [CHR 0x09, CHR 0x0A, CHR 0x0B, CHR 0x0C, CHR 0x0D, CHR 0x20])"

definition TrimSpace :: "string \<Rightarrow> string" where
  "TrimSpace s = rev (dropWhile isSpace (rev (dropWhile isSpace s)))"

text \<open>
  \<^verbatim>\<open>getMove(player, fen, isRetry, lastInvalidMove)\<close>. The adapters put
  \<open>fen\<close>, \<open>isRetry\<close> and \<open>lastInvalidMove\<close> into the prompt (the event
  \<open>GetMove\<close> records them) and work on the reply that the environment holds for call
  \<open>k\<close> of this pass. \<^verbatim>\<open>getOpenAIMove\<close> returns the error of a failed call and
  otherwise reads \<^verbatim>\<open>resp.Choices[0]\<close> without looking at the length of the slice:
  on a reply with no choice the index is out of range and the call panics.
  \<^verbatim>\<open>getAnthropicMove\<close> tests the length first, and returns an error for a reply with
  no content block or with an empty first text.
\<close>

definition getOpenAIMove :: "env \<Rightarrow> nat \<Rightarrow> error + string" where
  "getOpenAIMove e k =
     (case openai_reply e k of
        Failure err \<Rightarrow> Inl (Error err)
      | Answer choices \<Rightarrow>
          (case choices of
             [] \<Rightarrow> Inl (Panic ''runtime error: index out of range [0] with length 0'')
           | content # rest \<Rightarrow> Inr (TrimSpace content)))"

definition getAnthropicMove :: "env \<Rightarrow> nat \<Rightarrow> error + string" where
  "getAnthropicMove e k =
     (case anthropic_reply e k of
        Failure err \<Rightarrow> Inl (Error err)
      | Answer content \<Rightarrow>
          (if length content = 0 \<or> hd content = '''' then
             Inl (Error ''empty completion from Anthropic'')
           else Inr (TrimSpace (hd content))))"

definition getMove :: "env \<Rightarrow> nat \<Rightarrow> string \<Rightarrow> error + string" where
  "getMove e k player =
     (if player = ''openai'' then getOpenAIMove e k
      else if player = ''anthropic'' then getAnthropicMove e k
      else Inl (Error (''unknown player: '' @ player)))"

definition validateAndApplyMove ::
  "'g chess \<Rightarrow> string \<Rightarrow> 'g globals \<Rightarrow> string option \<times> 'g globals" where
  "validateAndApplyMove L move s =
     (case chess_MoveStr L (game s) move of
        Inl err \<Rightarrow> (Some err, s)
      | Inr g \<Rightarrow> (None, s\<lparr>game := g\<rparr>))"

definition saveGameState ::
  "'g chess \<Rightarrow> env \<Rightarrow> string \<Rightarrow> string \<Rightarrow> string \<Rightarrow> 'g globals
     \<Rightarrow> string option \<times> 'g globals \<times> event list" where
  "saveGameState L e player move outcome s =
     (case db s of
        None \<Rightarrow> (Some ''database connection is not initialized'', s, [])
      | Some rows \<Rightarrow>
          (let gameState = \<lparr>ID = 0, FEN = chess_FEN L (game s), LastMove = move,
                 LastPlayer = player, MoveHistory = moveHistory s, GameOutcome = outcome\<rparr>
           in case exec_error e of
                Some err \<Rightarrow>
                  (Some (''error saving game state: '' @ err), s, [Exec gameState (Some err)])
              | None \<Rightarrow>
                  (let (ch, sent) =
                         select_send (drop (received_before_save e) (gameStateChannel s)) gameState
                   in (None,
                       s\<lparr>db := Some (rows @ [row_of gameState]), gameStateChannel := ch\<rparr>,
                       [Exec gameState None, ChanSend AfterSave gameState sent]))))"

text \<open>
  The \<^verbatim>\<open>for attempts := 0; attempts < 3; attempts++\<close> loop of \<^verbatim>\<open>makeMove\<close>, from
  the value \<open>attempts\<close> on. \<open>fen\<close> is read once, before the loop. An error of
  \<^verbatim>\<open>getMove\<close> is logged and the loop goes on; a panic of \<^verbatim>\<open>getMove\<close> ends the
  call there. After an applied move the call returns what \<^verbatim>\<open>saveGameState\<close>
  returns, nil or its error.
\<close>

function makeMove_from ::
  "'g chess \<Rightarrow> env \<Rightarrow> string \<Rightarrow> string \<Rightarrow> nat \<Rightarrow> string \<Rightarrow> 'g globals
     \<Rightarrow> error option \<times> 'g globals \<times> event list" where
  "makeMove_from L e player fen attempts lastInvalidMove s =
     (if attempts < 3 then
        (case getMove e attempts player of
           Inl (Panic msg) \<Rightarrow>
             (Some (Panic msg), s, [GetMove player fen (attempts > 0) lastInvalidMove])
         | Inl (Error err) \<Rightarrow>
             (let (r, s', evs) = makeMove_from L e player fen (attempts + 1) lastInvalidMove s
              in (r, s', GetMove player fen (attempts > 0) lastInvalidMove
                         # ErrorGettingMove player (attempts + 1) err # evs))
         | Inr move \<Rightarrow>
             (case validateAndApplyMove L move s of
                (Some err, s1) \<Rightarrow>
                  (let (r, s', evs) = makeMove_from L e player fen (attempts + 1) move s1
                   in (r, s', GetMove player fen (attempts > 0) lastInvalidMove
                              # InvalidMove player move err # evs))
              | (None, s1) \<Rightarrow>
                  (let s2 = s1\<lparr>lastMove := move, moveHistory := moveHistory s1 @ [move]\<rparr>;
                       (r, s', evs) = saveGameState L e player move '''' s2
                   in (map_option Error r, s', GetMove player fen (attempts > 0) lastInvalidMove
                              # AppliedMove move player # evs))))
      else (Some (Error ''failed to get a valid move after 3 attempts''), s, []))"
  by pat_completeness auto
termination
  by (relation "measure (\<lambda>(L, e, player, fen, attempts, lastInvalidMove, s). 3 - attempts)") auto

definition makeMove ::
  "'g chess \<Rightarrow> env \<Rightarrow> string \<Rightarrow> 'g globals \<Rightarrow> error option \<times> 'g globals \<times> event list" where
  "makeMove L e player s = makeMove_from L e player (chess_FEN L (game s)) 0 '''' s"

definition players :: "string list" where
  "players = [''openai'', ''anthropic'']"

text \<open>
  The state of \<^verbatim>\<open>playGame\<close>: its locals \<open>playerIndex\<close> and \<open>moveCount\<close>, and the
  package-level variables.
\<close>

type_synonym 'g loop_state = "nat \<times> nat \<times> 'g globals"

text \<open>
  One pass of \<^verbatim>\<open>playGame\<close> from the head of its \<^verbatim>\<open>for\<close> loop: either the loop
  body (the game has no outcome yet), or the code after the loop up to the head of the
  loop in the recursive call \<^verbatim>\<open>playGame()\<close>, whose locals start at zero again.
  When \<^verbatim>\<open>makeMove\<close> panics, the pass ends with the report of the runtime, which
  nothing follows.
\<close>

definition playGame_pass :: "'g chess \<Rightarrow> env \<Rightarrow> 'g loop_state \<Rightarrow> event list \<times> 'g loop_state" where
  "playGame_pass L e st =
     (case st of (playerIndex, moveCount, s) \<Rightarrow>
        if chess_Outcome L (game s) = NoOutcome then
          (let currentPlayer = players ! playerIndex in
           case makeMove L e currentPlayer s of
             (Some (Panic msg), s1, evs) \<Rightarrow>
               (StartingMove (moveCount + 1) currentPlayer # evs @ [Panicked msg],
                (playerIndex, moveCount, s1))
           | (Some (Error err), s1, evs) \<Rightarrow>
               (StartingMove (moveCount + 1) currentPlayer # evs
                  @ [ErrorMakingMove currentPlayer err, Sleep 5],
                (playerIndex, moveCount, s1))
           | (None, s1, evs) \<Rightarrow>
               (let playerIndex' = (playerIndex + 1) mod 2;
                    moveCount' = moveCount + 1;
                    currentState = \<lparr>ID = 0, FEN = chess_FEN L (game s1), LastMove = lastMove s1,
                      LastPlayer = currentPlayer, MoveHistory = moveHistory s1,
                      GameOutcome = Outcome_String (chess_Outcome L (game s1))\<rparr>;
                    (ch, sent) =
                      select_send (drop (received_before_send e) (gameStateChannel s1)) currentState
                in (StartingMove (moveCount + 1) currentPlayer # evs
                      @ [ChanSend InLoop currentState sent, Sleep 3],
                    (playerIndex', moveCount', s1\<lparr>gameStateChannel := ch\<rparr>))))
        else
          (let (r, s1, evs) =
                 saveGameState L e (players ! playerIndex) (lastMove s)
                   (Outcome_String (chess_Outcome L (game s))) s
           in (GameOver (Outcome_String (chess_Outcome L (game s))) # evs
                 @ (case r of Some err \<Rightarrow> [ErrorSavingFinal err] | None \<Rightarrow> [])
                 @ [StartingNewGame],
               (0, 0, initGame L s1))))"

text \<open>The events of a pass end with the report of a panic.\<close>

fun exits :: "event \<Rightarrow> bool" where
  "exits (Panicked msg) = True"
| "exits ev = False"

definition panicked :: "event list \<Rightarrow> bool" where
  "panicked evs = (evs \<noteq> [] \<and> exits (last evs))"

text \<open>
  \<^verbatim>\<open>playGame\<close> never returns: after a game it calls itself (the frame that
  each call adds to the stack of the goroutine is left out here). The list of
  environments is its fuel, one element per pass. A pass that ends in a panic is the
  last one, whatever fuel is left: the process has exited. The result is the events so
  far and the state at the head of the loop where the fuel ran out, or the state in
  which the process exited.
\<close>

fun playGame_from :: "'g chess \<Rightarrow> env list \<Rightarrow> 'g loop_state \<Rightarrow> event list \<times> 'g loop_state" where
  "playGame_from L [] st = ([], st)"
| "playGame_from L (e # es) st =
     (let (evs, st1) = playGame_pass L e st
      in if panicked evs then (evs, st1)
         else (let (tr, st2) = playGame_from L es st1 in (evs @ tr, st2)))"

definition playGame :: "'g chess \<Rightarrow> env list \<Rightarrow> 'g globals \<Rightarrow> event list \<times> 'g loop_state" where
  "playGame L es s = playGame_from L es (0, 0, s)"

text \<open>
  The state in which \<^verbatim>\<open>main\<close> starts \<^verbatim>\<open>go playGame()\<close>: the database is
  open and empty here (\<^verbatim>\<open>initDB\<close> ends the process otherwise), \<^verbatim>\<open>initGame\<close> has
  run, and the channel is new.
\<close>

definition main_state :: "'g chess \<Rightarrow> 'g globals" where
  "main_state L =
     initGame L \<lparr>db = Some [], game = chess_NewGame L, moveHistory = [],
       gameStateChannel = [], lastMove = ''''\<rparr>"

section \<open>The streaming handler\<close>

text \<open>
  One pass of the \<^verbatim>\<open>for { select { ... } }\<close> loop that \<^verbatim>\<open>handleSSEGameState\<close>
  installs as body stream writer. The \<^verbatim>\<open>select\<close> either receives the oldest
  snapshot of the shared channel or sees \<^verbatim>\<open>done\<close>; with an empty channel and no
  \<^verbatim>\<open>done\<close> the task keeps waiting. What happens to a received snapshot depends
  on \<^verbatim>\<open>json.Marshal\<close>, \<^verbatim>\<open>fmt.Fprintf\<close> and \<^verbatim>\<open>w.Flush\<close>. \<open>frames\<close> are the
  snapshots written and flushed to the peer. No code closes the channel.
\<close>

datatype write_result = MarshalError | WriteError | FlushError | Written

datatype select_case = ChannelItem write_result | CtxDone

record observer =
  running :: bool
  frames :: "GameState list"

definition attached :: observer where
  "attached = \<lparr>running = True, frames = []\<rparr>"

definition sse_pass ::
  "select_case \<Rightarrow> GameState list \<Rightarrow> observer \<Rightarrow> GameState list \<times> observer" where
  "sse_pass c ch ob =
     (if \<not> running ob then (ch, ob)
      else case c of
        CtxDone \<Rightarrow> (ch, ob\<lparr>running := False\<rparr>)
      | ChannelItem w \<Rightarrow>
          (case ch of
             [] \<Rightarrow> (ch, ob)
           | gameState # rest \<Rightarrow>
               (case w of
                  MarshalError \<Rightarrow> (rest, ob)
                | WriteError \<Rightarrow> (rest, ob\<lparr>running := False\<rparr>)
                | FlushError \<Rightarrow> (rest, ob\<lparr>running := False\<rparr>)
                | Written \<Rightarrow> (rest, ob\<lparr>frames := frames ob @ [gameState]\<rparr>))))"

text \<open>
  The channel with its observer tasks, under any interleaving: an action is a send
  of the game loop or one pass of the observer with the given number.
\<close>

datatype action = Publish GameState | Observe nat select_case

type_synonym system = "GameState list \<times> (nat \<Rightarrow> observer)"

fun system_step :: "system \<Rightarrow> action \<Rightarrow> system" where
  "system_step (ch, obs) (Publish x) = (fst (select_send ch x), obs)"
| "system_step (ch, obs) (Observe i c) =
     (let (ch', ob) = sse_pass c ch (obs i) in (ch', obs(i := ob)))"

definition system_run :: "action list \<Rightarrow> system \<Rightarrow> system" where
  "system_run acts sys = foldl system_step sys acts"

fun published :: "action list \<Rightarrow> GameState list" where
  "published [] = []"
| "published (Publish x # acts) = x # published acts"
| "published (Observe i c # acts) = published acts"

section \<open>Reading a trace\<close>

text \<open>The number of calls of \<^verbatim>\<open>getMove\<close>.\<close>

fun requests :: "event list \<Rightarrow> nat" where
  "requests [] = 0"
| "requests (GetMove player fen isRetry lastInvalidMove # tr) = Suc (requests tr)"
| "requests (ev # tr) = requests tr"

text \<open>The failures that \<^verbatim>\<open>playGame\<close> reports for a call of \<^verbatim>\<open>makeMove\<close>.\<close>

fun reports :: "event list \<Rightarrow> (string \<times> string) list" where
  "reports [] = []"
| "reports (ErrorMakingMove player err # tr) = (player, err) # reports tr"
| "reports (ev # tr) = reports tr"

text \<open>The player slot of each pass of the loop body.\<close>

fun turn_slots :: "event list \<Rightarrow> string list" where
  "turn_slots [] = []"
| "turn_slots (StartingMove n player # tr) = player # turn_slots tr"
| "turn_slots (ev # tr) = turn_slots tr"

text \<open>The moves that the rules engine accepted, each with the player that made it.\<close>

fun applied :: "event list \<Rightarrow> (string \<times> string) list" where
  "applied [] = []"
| "applied (AppliedMove move player # tr) = (move, player) # applied tr"
| "applied (ev # tr) = applied tr"

text \<open>The snapshots handed to the INSERT, and those offered to the channel.\<close>

fun persisted :: "event list \<Rightarrow> GameState list" where
  "persisted [] = []"
| "persisted (Exec g r # tr) = g # persisted tr"
| "persisted (ev # tr) = persisted tr"

fun offered :: "event list \<Rightarrow> GameState list" where
  "offered [] = []"
| "offered (ChanSend site g sent # tr) = g # offered tr"
| "offered (ev # tr) = offered tr"

text \<open>The same with the place of each send and whether the channel took the snapshot.\<close>

fun sends :: "event list \<Rightarrow> (send_site \<times> GameState \<times> bool) list" where
  "sends [] = []"
| "sends (ChanSend site g sent # tr) = (site, g, sent) # sends tr"
| "sends (ev # tr) = sends tr"

text \<open>The snapshots that the channel took.\<close>

fun taken :: "event list \<Rightarrow> GameState list" where
  "taken [] = []"
| "taken (ChanSend site g sent # tr) = (if sent then g # taken tr else taken tr)"
| "taken (ev # tr) = taken tr"

text \<open>
  The snapshots in the order of their construction: \<^verbatim>\<open>saveGameState\<close> builds one
  before its INSERT (and offers the same one to the channel afterwards), the loop body
  builds one before its send.
\<close>

fun constructed :: "event list \<Rightarrow> GameState list" where
  "constructed [] = []"
| "constructed (Exec g r # tr) = g # constructed tr"
| "constructed (ChanSend InLoop g sent # tr) = g # constructed tr"
| "constructed (ev # tr) = constructed tr"


text \<open>A trace cut into its games, at each \<open>StartingNewGame\<close>.\<close>

fun split_games :: "event list \<Rightarrow> event list list" where
  "split_games [] = [[]]"
| "split_games (StartingNewGame # tr) = [] # split_games tr"
| "split_games (ev # tr) =
     (case split_games tr of [] \<Rightarrow> [[ev]] | seg # segs \<Rightarrow> (ev # seg) # segs)"

text \<open>
  A snapshot carries a terminal outcome when its field is neither empty (as
  \<^verbatim>\<open>makeMove\<close> passes it) nor the text of \<^verbatim>\<open>chess.NoOutcome\<close>.
\<close>

definition terminal :: "GameState \<Rightarrow> bool" where
  "terminal g = (GameOutcome g \<noteq> '''' \<and> GameOutcome g \<noteq> ''*'')"

text \<open>The snapshots of a list from the first one with a terminal outcome on.\<close>

definition closing :: "GameState list \<Rightarrow> GameState list" where
  "closing gs = dropWhile (\<lambda>g. \<not> terminal g) gs"

text \<open>
  Attempt \<open>k\<close> of a pass fails: the provider call returns an error, or the rules
  engine rejects the move it returns.
\<close>

definition attempt_fails :: "'g chess \<Rightarrow> env \<Rightarrow> string \<Rightarrow> 'g globals \<Rightarrow> nat \<Rightarrow> bool" where
  "attempt_fails L e player s k =
     (case getMove e k player of
        Inl (Error err) \<Rightarrow> True
      | Inl (Panic msg) \<Rightarrow> False
      | Inr move \<Rightarrow> isl (chess_MoveStr L (game s) move))"

text \<open>The events that \<^verbatim>\<open>makeMove\<close> logs for an attempt that fails.\<close>

fun attempt_log :: "event \<Rightarrow> bool" where
  "attempt_log (GetMove player fen isRetry lastInvalidMove) = True"
| "attempt_log (ErrorGettingMove player n err) = True"
| "attempt_log (InvalidMove player move err) = True"
| "attempt_log ev = False"

text \<open>
  How a call of \<^verbatim>\<open>makeMove\<close> ends, after the attempts \<open>pre\<close>: it has used up its
  three attempts and returns its own error, or \<^verbatim>\<open>getMove\<close> panics in attempt
  \<open>k\<close>, or the rules engine accepts the move of attempt \<open>k\<close> and the call ends with
  \<^verbatim>\<open>saveGameState\<close> on the state with that move applied. In the first two cases
  the state is as it was.
\<close>

definition makeMove_ends ::
  "'g chess \<Rightarrow> env \<Rightarrow> string \<Rightarrow> 'g globals \<Rightarrow> nat \<Rightarrow> event list
     \<Rightarrow> error option \<times> 'g globals \<times> event list \<Rightarrow> bool" where
  "makeMove_ends L e player s attempts pre result =
     (result = (Some (Error ''failed to get a valid move after 3 attempts''), s, pre) \<and>
      requests pre = 3 - attempts
      \<or>
      (\<exists>msg k. attempts \<le> k \<and> k < 3 \<and> getMove e k player = Inl (Panic msg) \<and>
         result = (Some (Panic msg), s, pre))
      \<or>
      (\<exists>move g k. attempts \<le> k \<and> k < 3 \<and> getMove e k player = Inr move \<and>
         chess_MoveStr L (game s) move = Inr g \<and>
         result =
           (let (r, s', evs) = saveGameState L e player move ''''
                  (s\<lparr>game := g, lastMove := move, moveHistory := moveHistory s @ [move]\<rparr>)
            in (map_option Error r, s', pre @ AppliedMove move player # evs))))"

section \<open>Names for the states and snapshots of a pass\<close>

text \<open>
  The \<^verbatim>\<open>GameState\<close> literal that \<^verbatim>\<open>saveGameState\<close> and the loop body both
  build: position and history from the package-level variables, the rest given.
\<close>

definition snapshot :: "'g chess \<Rightarrow> 'g globals \<Rightarrow> string \<Rightarrow> string \<Rightarrow> string \<Rightarrow> GameState" where
  "snapshot L s move player outcome =
     \<lparr>ID = 0, FEN = chess_FEN L (game s), LastMove = move, LastPlayer = player,
      MoveHistory = moveHistory s, GameOutcome = outcome\<rparr>"

text \<open>The package-level variables after \<^verbatim>\<open>makeMove\<close> has applied a move.\<close>

definition apply_move :: "'g \<Rightarrow> string \<Rightarrow> 'g globals \<Rightarrow> 'g globals" where
  "apply_move g move s = s\<lparr>game := g, lastMove := move, moveHistory := moveHistory s @ [move]\<rparr>"

text \<open>The channel after the observers took \<open>n\<close> snapshots and \<open>x\<close> was offered.\<close>

definition offer :: "nat \<Rightarrow> GameState \<Rightarrow> GameState list \<Rightarrow> GameState list" where
  "offer n x ch = fst (select_send (drop n ch) x)"

definition offer_sent :: "nat \<Rightarrow> GameState \<Rightarrow> GameState list \<Rightarrow> bool" where
  "offer_sent n x ch = snd (select_send (drop n ch) x)"

section \<open>A rules engine for the examples\<close>

text \<open>
  The examples need a value for the library parameter. \<open>line_chess line final\<close> knows
  one line of play: at ply \<open>n\<close> it accepts exactly the move \<open>line ! n\<close>, and after
  the last move of the line it reports \<open>final\<close>. With \<open>fools_mate\<close> it plays
  1. f3 e5 2. g4 Qh4 mate, which Black wins.
\<close>

definition line_chess :: "string list \<Rightarrow> Outcome \<Rightarrow> nat chess" where
  "line_chess line final =
     \<lparr>chess_NewGame = 0,
      chess_MoveStr = (\<lambda>n m. if n < length line \<and> m = line ! n then Inr (Suc n)
                              else Inl ''invalid move''),
      chess_Outcome = (\<lambda>n. if n < length line then NoOutcome else final),
      chess_FEN = (\<lambda>n. Join (take n line) '' '')\<rparr>"

definition fools_mate :: "nat chess" where
  "fools_mate = line_chess [''f3'', ''e5'', ''g4'', ''Qh4#''] BlackWon"

text \<open>
  An environment in which both providers answer with the one text \<open>m\<close> and the INSERT
  succeeds.
\<close>

definition answers :: "string \<Rightarrow> env" where
  "answers m =
     \<lparr>openai_reply = (\<lambda>k. Answer [m]), anthropic_reply = (\<lambda>k. Answer [m]), exec_error = None,
      received_before_save = 0, received_before_send = 0\<rparr>"

text \<open>The snapshot that the example engine gives after \<open>history\<close>.\<close>

definition snap :: "string \<Rightarrow> string \<Rightarrow> string list \<Rightarrow> string \<Rightarrow> GameState" where
  "snap move player history outcome =
     \<lparr>ID = 0, FEN = Join history '' '', LastMove = move, LastPlayer = player,
      MoveHistory = history, GameOutcome = outcome\<rparr>"

text \<open>
  The environments of one whole game: the four moves of the line, each answered at the
  first attempt, and the pass that ends the game (which asks no provider).
\<close>

definition fools_mate_game :: "env list" where
  "fools_mate_game =
     [answers ''f3'', answers ''e5'', answers ''g4'', answers ''Qh4#'', answers '''']"

text \<open>An environment changed so that its INSERT fails.\<close>

definition disk_full :: "env \<Rightarrow> env" where
  "disk_full e = e\<lparr>exec_error := Some ''disk full''\<rparr>"

text \<open>
  An environment changed so that the provider's reply arrives and decodes but holds no
  text: no choice in the reply of OpenAI, no content block in that of Anthropic.
\<close>

definition no_choices :: "env \<Rightarrow> env" where
  "no_choices e = e\<lparr>openai_reply := (\<lambda>k. Answer [])\<rparr>"

definition no_content :: "env \<Rightarrow> env" where
  "no_content e = e\<lparr>anthropic_reply := (\<lambda>k. Answer [])\<rparr>"

text \<open>An environment changed so that no observer task receives anything.\<close>

definition no_observers :: "env \<Rightarrow> env" where
  "no_observers e = e\<lparr>received_before_save := 0, received_before_send := 0\<rparr>"

text \<open>A channel whose buffer is full: a hundred snapshots of the first move.\<close>

definition full_channel :: "GameState list" where
  "full_channel = replicate 100 (snap ''f3'' ''openai'' [''f3''] '''')"

section \<open>Facts about the channel\<close>

lemma select_send_eq:
  "select_send ch x = (if length ch < 100 then (ch @ [x], True) else (ch, False))"
  by (simp add: select_send_def chan_send_def channel_capacity_def)

section \<open>Traces of attempts\<close>

lemma requests_append: "requests (xs @ ys) = requests xs + requests ys"
  by (induction xs rule: requests.induct) simp_all

lemma reports_append: "reports (xs @ ys) = reports xs @ reports ys"
  by (induction xs rule: reports.induct) simp_all

lemma turn_slots_append: "turn_slots (xs @ ys) = turn_slots xs @ turn_slots ys"
  by (induction xs rule: turn_slots.induct) simp_all

lemma applied_append: "applied (xs @ ys) = applied xs @ applied ys"
  by (induction xs rule: applied.induct) simp_all

lemma persisted_append: "persisted (xs @ ys) = persisted xs @ persisted ys"
  by (induction xs rule: persisted.induct) simp_all

lemma offered_append: "offered (xs @ ys) = offered xs @ offered ys"
  by (induction xs rule: offered.induct) simp_all

lemma constructed_append: "constructed (xs @ ys) = constructed xs @ constructed ys"
  by (induction xs rule: constructed.induct) simp_all

lemma sends_append: "sends (xs @ ys) = sends xs @ sends ys"
  by (induction xs rule: sends.induct) simp_all

lemma taken_append: "taken (xs @ ys) = taken xs @ taken ys"
  by (induction xs rule: taken.induct) simp_all

lemma attempt_log_silent:
  "list_all attempt_log pre \<Longrightarrow>
     reports pre = [] \<and> turn_slots pre = [] \<and> applied pre = [] \<and> persisted pre = [] \<and>
     offered pre = [] \<and> sends pre = [] \<and> constructed pre = [] \<and> taken pre = [] \<and>
     StartingNewGame \<notin> set pre"
proof (induction pre)
  case Nil
  show ?case by simp
next
  case (Cons ev pre)
  then show ?case by (cases ev) simp_all
qed


section \<open>\<^verbatim>\<open>saveGameState\<close> and \<^verbatim>\<open>makeMove\<close>, case by case\<close>

declare makeMove_from.simps [simp del]

lemma saveGameState_no_db:
  "db s = None \<Longrightarrow>
   saveGameState L e player move outcome s =
     (Some ''database connection is not initialized'', s, [])"
  by (simp add: saveGameState_def)

lemma saveGameState_exec_error:
  "db s = Some rows \<Longrightarrow> exec_error e = Some err \<Longrightarrow>
   saveGameState L e player move outcome s =
     (Some (''error saving game state: '' @ err), s,
      [Exec \<lparr>ID = 0, FEN = chess_FEN L (game s), LastMove = move, LastPlayer = player,
             MoveHistory = moveHistory s, GameOutcome = outcome\<rparr> (Some err)])"
  by (simp add: saveGameState_def)

lemma saveGameState_saved:
  "db s = Some rows \<Longrightarrow> exec_error e = None \<Longrightarrow>
   saveGameState L e player move outcome s =
     (let g = \<lparr>ID = 0, FEN = chess_FEN L (game s), LastMove = move, LastPlayer = player,
                MoveHistory = moveHistory s, GameOutcome = outcome\<rparr>;
          ch = drop (received_before_save e) (gameStateChannel s)
      in (None,
          s\<lparr>db := Some (rows @ [row_of g]), gameStateChannel := fst (select_send ch g)\<rparr>,
          [Exec g None, ChanSend AfterSave g (snd (select_send ch g))]))"
  by (simp add: saveGameState_def Let_def case_prod_beta)

lemma saveGameState_cases:
  obtains (db_nil) "db s = None"
  | (exec_failed) rows err where "db s = Some rows" "exec_error e = Some err"
  | (exec_ok) rows where "db s = Some rows" "exec_error e = None"
  by (cases "db s"; cases "exec_error e") auto

lemma makeMove_from_exhausted:
  "\<not> attempts < 3 \<Longrightarrow>
   makeMove_from L e player fen attempts lastInvalidMove s =
     (Some (Error ''failed to get a valid move after 3 attempts''), s, [])"
  by (simp add: makeMove_from.simps)

lemma makeMove_from_panic:
  "attempts < 3 \<Longrightarrow> getMove e attempts player = Inl (Panic msg) \<Longrightarrow>
   makeMove_from L e player fen attempts lastInvalidMove s =
     (Some (Panic msg), s, [GetMove player fen (attempts > 0) lastInvalidMove])"
  by (simp add: makeMove_from.simps[of L e player fen attempts])

lemma makeMove_from_provider_error:
  "attempts < 3 \<Longrightarrow> getMove e attempts player = Inl (Error err) \<Longrightarrow>
   makeMove_from L e player fen attempts lastInvalidMove s =
     (let (r, s', evs) = makeMove_from L e player fen (Suc attempts) lastInvalidMove s
      in (r, s', GetMove player fen (attempts > 0) lastInvalidMove
                 # ErrorGettingMove player (Suc attempts) err # evs))"
  by (simp add: makeMove_from.simps[of L e player fen attempts])

lemma makeMove_from_rejected:
  "attempts < 3 \<Longrightarrow> getMove e attempts player = Inr move \<Longrightarrow>
   chess_MoveStr L (game s) move = Inl err \<Longrightarrow>
   makeMove_from L e player fen attempts lastInvalidMove s =
     (let (r, s', evs) = makeMove_from L e player fen (Suc attempts) move s
      in (r, s', GetMove player fen (attempts > 0) lastInvalidMove
                 # InvalidMove player move err # evs))"
  by (simp add: makeMove_from.simps[of L e player fen attempts] validateAndApplyMove_def)

lemma makeMove_from_applied:
  "attempts < 3 \<Longrightarrow> getMove e attempts player = Inr move \<Longrightarrow>
   chess_MoveStr L (game s) move = Inr g \<Longrightarrow>
   makeMove_from L e player fen attempts lastInvalidMove s =
     (let (r, s', evs) = saveGameState L e player move ''''
            (s\<lparr>game := g, lastMove := move, moveHistory := moveHistory s @ [move]\<rparr>)
      in (map_option Error r, s', GetMove player fen (attempts > 0) lastInvalidMove
                 # AppliedMove move player # evs))"
  by (simp add: makeMove_from.simps[of L e player fen attempts] validateAndApplyMove_def)

lemma attempt_cases:
  obtains (exhausted) "\<not> attempts < 3"
  | (panics) msg where "attempts < 3" "getMove e attempts player = Inl (Panic msg)"
  | (provider_error) err where "attempts < 3" "getMove e attempts player = Inl (Error err)"
  | (rejected) move err where "attempts < 3" "getMove e attempts player = Inr move"
      "chess_MoveStr L (game s) move = Inl err"
  | (applied) move g where "attempts < 3" "getMove e attempts player = Inr move"
      "chess_MoveStr L (game s) move = Inr g"
proof (cases "attempts < 3")
  case False
  then show ?thesis by (rule exhausted)
next
  case True
  show ?thesis
  proof (cases "getMove e attempts player")
    case (Inl err)
    with True show ?thesis by (cases err) (auto intro: panics provider_error)
  next
    case (Inr move)
    show ?thesis
    proof (cases "chess_MoveStr L (game s) move")
      case (Inl err)
      with True Inr show ?thesis by (rule rejected)
    next
      case (Inr g)
      with True \<open>getMove e attempts player = Inr move\<close> show ?thesis by (rule applied)
    qed
  qed
qed

lemma makeMove_ends_next:
  assumes "makeMove_ends L e player s (Suc attempts) pre (r, s', evs)"
    and "list_all attempt_log head" "requests head = 1" "attempts < 3"
  shows "makeMove_ends L e player s attempts (head @ pre) (r, s', head @ evs)"
proof -
  from assms(1) consider
    (gave_up) "(r, s', evs) = (Some (Error ''failed to get a valid move after 3 attempts''), s, pre)"
      "requests pre = 3 - Suc attempts"
  | (panics) msg k where "Suc attempts \<le> k" "k < 3" "getMove e k player = Inl (Panic msg)"
      "(r, s', evs) = (Some (Panic msg), s, pre)"
  | (applied) move g k where "Suc attempts \<le> k" "k < 3" "getMove e k player = Inr move"
      "chess_MoveStr L (game s) move = Inr g"
      "(r, s', evs) =
         (let (r, s', evs) = saveGameState L e player move ''''
                (s\<lparr>game := g, lastMove := move, moveHistory := moveHistory s @ [move]\<rparr>)
          in (map_option Error r, s', pre @ AppliedMove move player # evs))"
    unfolding makeMove_ends_def by blast
  then show ?thesis
  proof cases
    case gave_up
    with assms(3,4) have "requests (head @ pre) = 3 - attempts"
      by (simp add: requests_append)
    with gave_up show ?thesis
      by (simp add: makeMove_ends_def)
  next
    case (panics msg k)
    then have "attempts \<le> k" by simp
    with panics show ?thesis
      unfolding makeMove_ends_def by blast
  next
    case (applied move g k)
    then have "attempts \<le> k" by simp
    moreover from applied(5) have "(r, s', head @ evs) =
         (let (r, s', evs) = saveGameState L e player move ''''
                (s\<lparr>game := g, lastMove := move, moveHistory := moveHistory s @ [move]\<rparr>)
          in (map_option Error r, s', (head @ pre) @ AppliedMove move player # evs))"
      by (simp add: case_prod_beta Let_def)
    ultimately show ?thesis
      using applied(2-4) unfolding makeMove_ends_def by blast
  qed
qed

lemma makeMove_from_shape:
  "\<exists>pre. list_all attempt_log pre \<and> requests pre \<le> 3 - attempts \<and>
     makeMove_ends L e player s attempts pre
       (makeMove_from L e player fen attempts lastInvalidMove s)"
proof (induction "3 - attempts" arbitrary: attempts lastInvalidMove)
  case 0
  then have "\<not> attempts < 3" by simp
  then have "list_all attempt_log [] \<and> requests [] \<le> 3 - attempts \<and>
     makeMove_ends L e player s attempts []
       (makeMove_from L e player fen attempts lastInvalidMove s)"
    by (simp add: makeMove_from_exhausted makeMove_ends_def)
  then show ?case by blast
next
  case (Suc n)
  then have lt: "attempts < 3" and n: "n = 3 - Suc attempts" by simp_all
  have next_attempt: ?case
    if unfold: "makeMove_from L e player fen attempts lastInvalidMove s =
        (let (r, s', evs) = makeMove_from L e player fen (Suc attempts) last' s
         in (r, s', head @ evs))"
      and head: "list_all attempt_log head" "requests head = 1"
    for head last'
  proof -
    obtain r s' evs where res: "makeMove_from L e player fen (Suc attempts) last' s = (r, s', evs)"
      by (cases "makeMove_from L e player fen (Suc attempts) last' s") auto
    from Suc.hyps(1)[OF n, of last'] res obtain pre where
      pre: "list_all attempt_log pre" "requests pre \<le> 3 - Suc attempts"
        "makeMove_ends L e player s (Suc attempts) pre (r, s', evs)"
      by auto
    have "list_all attempt_log (head @ pre)" "requests (head @ pre) \<le> 3 - attempts"
      using pre head lt by (simp_all add: requests_append)
    moreover have "makeMove_ends L e player s attempts (head @ pre)
        (makeMove_from L e player fen attempts lastInvalidMove s)"
      using makeMove_ends_next[OF pre(3) head lt] unfold res by simp
    ultimately show ?thesis by blast
  qed
  show ?case
  proof (cases rule: attempt_cases[where attempts=attempts and e=e and player=player and L=L and s=s])
    case exhausted
    with lt show ?thesis by simp
  next
    case (panics msg)
    let ?head = "[GetMove player fen (attempts > 0) lastInvalidMove]"
    have "makeMove_ends L e player s attempts ?head
        (makeMove_from L e player fen attempts lastInvalidMove s)"
      unfolding makeMove_ends_def using panics lt
      by (intro disjI2 disjI1 exI[of _ msg] exI[of _ attempts]) (simp add: makeMove_from_panic)
    moreover have "list_all attempt_log ?head" "requests ?head \<le> 3 - attempts"
      using lt by simp_all
    ultimately show ?thesis by blast
  next
    case (provider_error err)
    show ?thesis
    proof (rule next_attempt)
      show "makeMove_from L e player fen attempts lastInvalidMove s =
        (let (r, s', evs) = makeMove_from L e player fen (Suc attempts) lastInvalidMove s
         in (r, s', [GetMove player fen (attempts > 0) lastInvalidMove,
                     ErrorGettingMove player (Suc attempts) err] @ evs))"
        using provider_error by (simp add: makeMove_from_provider_error)
    qed simp_all
  next
    case (rejected move err)
    show ?thesis
    proof (rule next_attempt)
      show "makeMove_from L e player fen attempts lastInvalidMove s =
        (let (r, s', evs) = makeMove_from L e player fen (Suc attempts) move s
         in (r, s', [GetMove player fen (attempts > 0) lastInvalidMove,
                     InvalidMove player move err] @ evs))"
        using rejected by (simp add: makeMove_from_rejected)
    qed simp_all
  next
    case (applied move g)
    let ?head = "[GetMove player fen (attempts > 0) lastInvalidMove]"
    have "makeMove_ends L e player s attempts ?head
        (makeMove_from L e player fen attempts lastInvalidMove s)"
      unfolding makeMove_ends_def using applied lt
      by (intro disjI2 exI[of _ move] exI[of _ g] exI[of _ attempts])
         (simp add: makeMove_from_applied)
    moreover have "list_all attempt_log ?head" "requests ?head \<le> 3 - attempts"
      using lt by simp_all
    ultimately show ?thesis by blast
  qed
qed

lemma makeMove_cases:
  obtains
    (gave_up) pre where "list_all attempt_log pre" "requests pre = 3"
      "makeMove L e player s =
         (Some (Error ''failed to get a valid move after 3 attempts''), s, pre)"
  | (panics) pre msg k where "list_all attempt_log pre" "requests pre \<le> 3"
      "k < 3" "getMove e k player = Inl (Panic msg)"
      "makeMove L e player s = (Some (Panic msg), s, pre)"
  | (no_db) pre move g k where "list_all attempt_log pre" "requests pre \<le> 3"
      "k < 3" "getMove e k player = Inr move" "chess_MoveStr L (game s) move = Inr g" "db s = None"
      "makeMove L e player s =
         (Some (Error ''database connection is not initialized''),
          s\<lparr>game := g, lastMove := move, moveHistory := moveHistory s @ [move]\<rparr>,
          pre @ [AppliedMove move player])"
  | (exec_error) pre move g rows err k where "list_all attempt_log pre" "requests pre \<le> 3"
      "k < 3" "getMove e k player = Inr move" "chess_MoveStr L (game s) move = Inr g" "db s = Some rows" "exec_error e = Some err"
      "makeMove L e player s =
         (Some (Error (''error saving game state: '' @ err)),
          s\<lparr>game := g, lastMove := move, moveHistory := moveHistory s @ [move]\<rparr>,
          pre @ [AppliedMove move player,
                 Exec \<lparr>ID = 0, FEN = chess_FEN L g, LastMove = move, LastPlayer = player,
                        MoveHistory = moveHistory s @ [move], GameOutcome = ''''\<rparr> (Some err)])"
  | (saved) pre move g rows sent k where "list_all attempt_log pre" "requests pre \<le> 3"
      "k < 3" "getMove e k player = Inr move" "chess_MoveStr L (game s) move = Inr g" "db s = Some rows" "exec_error e = None"
      "sent = snd (select_send (drop (received_before_save e) (gameStateChannel s))
                 \<lparr>ID = 0, FEN = chess_FEN L g, LastMove = move, LastPlayer = player,
                   MoveHistory = moveHistory s @ [move], GameOutcome = ''''\<rparr>)"
      "makeMove L e player s =
         (None,
          s\<lparr>game := g, lastMove := move, moveHistory := moveHistory s @ [move],
            db := Some (rows @ [row_of \<lparr>ID = 0, FEN = chess_FEN L g, LastMove = move,
                   LastPlayer = player, MoveHistory = moveHistory s @ [move], GameOutcome = ''''\<rparr>]),
            gameStateChannel :=
              fst (select_send (drop (received_before_save e) (gameStateChannel s))
                 \<lparr>ID = 0, FEN = chess_FEN L g, LastMove = move, LastPlayer = player,
                   MoveHistory = moveHistory s @ [move], GameOutcome = ''''\<rparr>)\<rparr>,
          pre @ [AppliedMove move player,
                 Exec \<lparr>ID = 0, FEN = chess_FEN L g, LastMove = move, LastPlayer = player,
                        MoveHistory = moveHistory s @ [move], GameOutcome = ''''\<rparr> None,
                 ChanSend AfterSave \<lparr>ID = 0, FEN = chess_FEN L g, LastMove = move,
                        LastPlayer = player, MoveHistory = moveHistory s @ [move],
                        GameOutcome = ''''\<rparr> sent])"
proof -
  let ?fen = "chess_FEN L (game s)"
  from makeMove_from_shape[of 0 L e player s ?fen "[]"] obtain pre where
    pre: "list_all attempt_log pre" "requests pre \<le> 3" and
    ends: "makeMove_ends L e player s 0 pre (makeMove L e player s)"
    by (auto simp: makeMove_def)
  from ends consider
    (a) "makeMove L e player s =
           (Some (Error ''failed to get a valid move after 3 attempts''), s, pre)"
        "requests pre = 3"
  | (b) msg k where "k < 3" "getMove e k player = Inl (Panic msg)"
        "makeMove L e player s = (Some (Panic msg), s, pre)"
  | (c) move g k where "k < 3" "getMove e k player = Inr move"
        "chess_MoveStr L (game s) move = Inr g"
        "makeMove L e player s =
           (let (r, s', evs) = saveGameState L e player move ''''
                  (s\<lparr>game := g, lastMove := move, moveHistory := moveHistory s @ [move]\<rparr>)
            in (map_option Error r, s', pre @ AppliedMove move player # evs))"
    unfolding makeMove_ends_def by auto
  then show ?thesis
  proof cases
    case a
    with pre show ?thesis by (intro gave_up[of pre]) simp_all
  next
    case (b msg k)
    with pre show ?thesis by (intro panics[of pre k msg]) simp_all
  next
    case (c move g k)
    note g = c(1-3) and eq = c(4)
    show ?thesis
    proof (cases rule: saveGameState_cases[where s=s and e=e])
      case db_nil
      with eq show ?thesis
        by (intro no_db[OF pre g]) (simp_all add: saveGameState_no_db)
    next
      case (exec_failed rows err)
      with eq show ?thesis
        by (intro exec_error[OF pre g]) (simp_all add: saveGameState_exec_error)
    next
      case (exec_ok rows)
      with eq show ?thesis
        by (intro saved[OF pre g _ _ refl]) (simp_all add: saveGameState_saved Let_def)
    qed
  qed
qed

text \<open>The last event of the events of a pass decides whether it ended in a panic.\<close>

lemma panicked_simps [simp]:
  "panicked [] = False"
  "panicked (ev # evs) = (if evs = [] then exits ev else panicked evs)"
  "panicked (xs @ ys) = (if ys = [] then panicked xs else panicked ys)"
  by (simp_all add: panicked_def)

lemma playGame_pass_cases:
  fixes L :: "'g chess" and s :: "'g globals"
  obtains
    (over_no_db) "chess_Outcome L (game s) \<noteq> NoOutcome" "db s = None"
      "playGame_pass L e (playerIndex, moveCount, s) =
         ([GameOver (Outcome_String (chess_Outcome L (game s))),
           ErrorSavingFinal ''database connection is not initialized'', StartingNewGame],
          (0, 0, initGame L s))"
  | (over_exec_error) rows err where "chess_Outcome L (game s) \<noteq> NoOutcome"
      "db s = Some rows" "exec_error e = Some err"
      "playGame_pass L e (playerIndex, moveCount, s) =
         ([GameOver (Outcome_String (chess_Outcome L (game s))),
           Exec (snapshot L s (lastMove s) (players ! playerIndex)
                   (Outcome_String (chess_Outcome L (game s)))) (Some err),
           ErrorSavingFinal (''error saving game state: '' @ err), StartingNewGame],
          (0, 0, initGame L s))"
  | (over_saved) rows g where "chess_Outcome L (game s) \<noteq> NoOutcome"
      "db s = Some rows" "exec_error e = None"
      "g = snapshot L s (lastMove s) (players ! playerIndex)
             (Outcome_String (chess_Outcome L (game s)))"
      "playGame_pass L e (playerIndex, moveCount, s) =
         ([GameOver (Outcome_String (chess_Outcome L (game s))),
           Exec g None,
           ChanSend AfterSave g (offer_sent (received_before_save e) g (gameStateChannel s)),
           StartingNewGame],
          (0, 0, initGame L (s\<lparr>db := Some (rows @ [row_of g]),
             gameStateChannel := offer (received_before_save e) g (gameStateChannel s)\<rparr>)))"
  | (gave_up) pre where "chess_Outcome L (game s) = NoOutcome"
      "list_all attempt_log pre" "requests pre = 3"
      "playGame_pass L e (playerIndex, moveCount, s) =
         (StartingMove (moveCount + 1) (players ! playerIndex) # pre @
            [ErrorMakingMove (players ! playerIndex)
               ''failed to get a valid move after 3 attempts'', Sleep 5],
          (playerIndex, moveCount, s))"
      "fst (makeMove L e (players ! playerIndex) s) \<noteq> None"
  | (panics) pre msg k where "chess_Outcome L (game s) = NoOutcome"
      "list_all attempt_log pre" "requests pre \<le> 3"
      "k < 3" "getMove e k (players ! playerIndex) = Inl (Panic msg)"
      "playGame_pass L e (playerIndex, moveCount, s) =
         (StartingMove (moveCount + 1) (players ! playerIndex) # pre @ [Panicked msg],
          (playerIndex, moveCount, s))"
      "fst (makeMove L e (players ! playerIndex) s) \<noteq> None"
  | (move_no_db) pre move g k where "chess_Outcome L (game s) = NoOutcome"
      "list_all attempt_log pre" "requests pre \<le> 3"
      "k < 3" "getMove e k (players ! playerIndex) = Inr move"
      "chess_MoveStr L (game s) move = Inr g" "db s = None"
      "playGame_pass L e (playerIndex, moveCount, s) =
         (StartingMove (moveCount + 1) (players ! playerIndex) # pre @
            [AppliedMove move (players ! playerIndex),
             ErrorMakingMove (players ! playerIndex) ''database connection is not initialized'',
             Sleep 5],
          (playerIndex, moveCount, apply_move g move s))"
      "fst (makeMove L e (players ! playerIndex) s) \<noteq> None"
  | (move_exec_error) pre move g k rows err where "chess_Outcome L (game s) = NoOutcome"
      "list_all attempt_log pre" "requests pre \<le> 3"
      "k < 3" "getMove e k (players ! playerIndex) = Inr move"
      "chess_MoveStr L (game s) move = Inr g" "db s = Some rows" "exec_error e = Some err"
      "playGame_pass L e (playerIndex, moveCount, s) =
         (StartingMove (moveCount + 1) (players ! playerIndex) # pre @
            [AppliedMove move (players ! playerIndex),
             Exec (snapshot L (apply_move g move s) move (players ! playerIndex) '''') (Some err),
             ErrorMakingMove (players ! playerIndex) (''error saving game state: '' @ err),
             Sleep 5],
          (playerIndex, moveCount, apply_move g move s))"
      "fst (makeMove L e (players ! playerIndex) s) \<noteq> None"
  | (move_saved) pre move g k rows g1 g2 ch1 where "chess_Outcome L (game s) = NoOutcome"
      "list_all attempt_log pre" "requests pre \<le> 3"
      "k < 3" "getMove e k (players ! playerIndex) = Inr move"
      "chess_MoveStr L (game s) move = Inr g" "db s = Some rows" "exec_error e = None"
      "g1 = snapshot L (apply_move g move s) move (players ! playerIndex) ''''"
      "g2 = snapshot L (apply_move g move s) move (players ! playerIndex)
              (Outcome_String (chess_Outcome L g))"
      "ch1 = offer (received_before_save e) g1 (gameStateChannel s)"
      "playGame_pass L e (playerIndex, moveCount, s) =
         (StartingMove (moveCount + 1) (players ! playerIndex) # pre @
            [AppliedMove move (players ! playerIndex),
             Exec g1 None,
             ChanSend AfterSave g1 (offer_sent (received_before_save e) g1 (gameStateChannel s)),
             ChanSend InLoop g2 (offer_sent (received_before_send e) g2 ch1),
             Sleep 3],
          ((playerIndex + 1) mod 2, moveCount + 1,
           (apply_move g move s)\<lparr>db := Some (rows @ [row_of g1]),
              gameStateChannel := offer (received_before_send e) g2 ch1\<rparr>))"
      "fst (makeMove L e (players ! playerIndex) s) = None"
proof (cases "chess_Outcome L (game s) = NoOutcome")
  case False
  show ?thesis
  proof (cases rule: saveGameState_cases[where s=s and e=e])
    case db_nil
    with False show ?thesis
      by (intro over_no_db) (simp_all add: playGame_pass_def saveGameState_no_db)
  next
    case (exec_failed rows err)
    with False show ?thesis
      by (intro over_exec_error[of rows err])
         (simp_all add: playGame_pass_def saveGameState_exec_error snapshot_def)
  next
    case (exec_ok rows)
    with False show ?thesis
      by (intro over_saved[OF _ _ _ refl])
         (simp_all add: playGame_pass_def saveGameState_saved snapshot_def Let_def
            offer_def offer_sent_def)
  qed
next
  case True
  show ?thesis
  proof (cases rule: makeMove_cases[where L=L and e=e and player="players ! playerIndex" and s=s])
    case (gave_up pre)
    with True show ?thesis
      by (intro that(4)[of pre]) (simp_all add: playGame_pass_def Let_def)
  next
    case (panics pre msg k)
    with True show ?thesis
      by (intro that(5)[of pre k msg]) (simp_all add: playGame_pass_def Let_def)
  next
    case (no_db pre move g k)
    with True show ?thesis
      by (intro move_no_db[of pre k move g]) (simp_all add: playGame_pass_def apply_move_def Let_def)
  next
    case (exec_error pre move g rows err k)
    with True show ?thesis
      by (intro move_exec_error[of pre k move g rows err])
         (simp_all add: playGame_pass_def apply_move_def snapshot_def Let_def)
  next
    case (saved pre move g rows sent k)
    with True show ?thesis
      by (intro move_saved[of pre k move g rows _ _ _, OF _ _ _ _ _ _ _ _ refl refl refl])
         (simp_all add: playGame_pass_def apply_move_def snapshot_def Let_def case_prod_beta
            offer_def offer_sent_def)
  qed
qed

text \<open>
  The events of a pass end with the report of a panic exactly when the game has no
  outcome yet and \<^verbatim>\<open>makeMove\<close> panics: these are the passes after which a run
  makes no further pass.
\<close>

lemma playGame_pass_panicked:
  "panicked (fst (playGame_pass L e (playerIndex, moveCount, s))) =
     (chess_Outcome L (game s) = NoOutcome \<and>
      (\<exists>msg. fst (makeMove L e (players ! playerIndex) s) = Some (Panic msg)))"
  by (auto simp: playGame_pass_def Let_def case_prod_beta
      split: option.splits error.splits prod.splits)

text \<open>
  \<open>playerIndex\<close> starts at 0 and a pass sets it to 0, to itself or to its successor
  modulo 2: \<^verbatim>\<open>players[playerIndex]\<close> is always within the two slots. And the loop body
  moves on to the other slot exactly when \<^verbatim>\<open>makeMove\<close> returns no error.
\<close>

lemma playGame_pass_index:
  "playerIndex < 2 \<Longrightarrow> fst (snd (playGame_pass L e (playerIndex, moveCount, s))) < 2"
  by (cases rule: playGame_pass_cases[where L=L and e=e and s=s and playerIndex=playerIndex
        and moveCount=moveCount]) simp_all

lemma playGame_from_index:
  "fst st < 2 \<Longrightarrow> fst (snd (playGame_from L es st)) < 2"
proof (induction es arbitrary: st)
  case Nil
  then show ?case by simp
next
  case (Cons e es)
  obtain playerIndex moveCount s where st: "st = (playerIndex, moveCount, s)"
    by (cases st) auto
  have "fst (snd (playGame_pass L e st)) < 2"
    using Cons.prems playGame_pass_index[of playerIndex L e moveCount s] by (simp add: st)
  from Cons.IH[OF this] this show ?case
    by (simp add: case_prod_beta)
qed

lemma playGame_pass_slot:
  "chess_Outcome L (game s) = NoOutcome \<Longrightarrow>
   fst (snd (playGame_pass L e (playerIndex, moveCount, s))) =
     (if fst (makeMove L e (players ! playerIndex) s) = None then (playerIndex + 1) mod 2
      else playerIndex)"
  by (simp add: playGame_pass_def Let_def case_prod_beta
      split: option.splits prod.splits error.splits)

section \<open>The example game\<close>

lemmas run_defs =
  playGame_def playGame_pass_def makeMove_def makeMove_from.simps saveGameState_def
  validateAndApplyMove_def getMove_def getOpenAIMove_def getAnthropicMove_def main_state_def
  initGame_def fools_mate_def line_chess_def answers_def disk_full_def players_def
  select_send_eq Let_def snap_def fools_mate_game_def TrimSpace_def isSpace_def

lemma fools_mate_pass_1:
  "playGame_pass fools_mate (answers ''f3'') (0, 0, main_state fools_mate) =
     ([StartingMove 1 ''openai'', GetMove ''openai'' '''' False '''',
       AppliedMove ''f3'' ''openai'',
       Exec (snap ''f3'' ''openai'' [''f3''] '''') None,
       ChanSend AfterSave (snap ''f3'' ''openai'' [''f3''] '''') True,
       ChanSend InLoop (snap ''f3'' ''openai'' [''f3''] ''*'') True,
       Sleep 3],
      (1, 1, \<lparr>db = Some [row_of (snap ''f3'' ''openai'' [''f3''] '''')], game = 1,
               moveHistory = [''f3''],
               gameStateChannel = [snap ''f3'' ''openai'' [''f3''] '''',
                                   snap ''f3'' ''openai'' [''f3''] ''*''],
               lastMove = ''f3''\<rparr>))"
  by (simp add: run_defs)

lemma fools_mate_run:
  "fst (playGame fools_mate
          (fools_mate_game @ [answers ''f3''])
          (main_state fools_mate)) =
     [StartingMove 1 ''openai'', GetMove ''openai'' '''' False '''',
      AppliedMove ''f3'' ''openai'',
      Exec (snap ''f3'' ''openai'' [''f3''] '''') None,
      ChanSend AfterSave (snap ''f3'' ''openai'' [''f3''] '''') True,
      ChanSend InLoop (snap ''f3'' ''openai'' [''f3''] ''*'') True,
      Sleep 3,
      StartingMove 2 ''anthropic'', GetMove ''anthropic'' ''f3'' False '''',
      AppliedMove ''e5'' ''anthropic'',
      Exec (snap ''e5'' ''anthropic'' [''f3'', ''e5''] '''') None,
      ChanSend AfterSave (snap ''e5'' ''anthropic'' [''f3'', ''e5''] '''') True,
      ChanSend InLoop (snap ''e5'' ''anthropic'' [''f3'', ''e5''] ''*'') True,
      Sleep 3,
      StartingMove 3 ''openai'', GetMove ''openai'' ''f3 e5'' False '''',
      AppliedMove ''g4'' ''openai'',
      Exec (snap ''g4'' ''openai'' [''f3'', ''e5'', ''g4''] '''') None,
      ChanSend AfterSave (snap ''g4'' ''openai'' [''f3'', ''e5'', ''g4''] '''') True,
      ChanSend InLoop (snap ''g4'' ''openai'' [''f3'', ''e5'', ''g4''] ''*'') True,
      Sleep 3,
      StartingMove 4 ''anthropic'', GetMove ''anthropic'' ''f3 e5 g4'' False '''',
      AppliedMove ''Qh4#'' ''anthropic'',
      Exec (snap ''Qh4#'' ''anthropic'' [''f3'', ''e5'', ''g4'', ''Qh4#''] '''') None,
      ChanSend AfterSave (snap ''Qh4#'' ''anthropic'' [''f3'', ''e5'', ''g4'', ''Qh4#''] '''') True,
      ChanSend InLoop (snap ''Qh4#'' ''anthropic'' [''f3'', ''e5'', ''g4'', ''Qh4#''] ''0-1'') True,
      Sleep 3,
      GameOver ''0-1'',
      Exec (snap ''Qh4#'' ''openai'' [''f3'', ''e5'', ''g4'', ''Qh4#''] ''0-1'') None,
      ChanSend AfterSave (snap ''Qh4#'' ''openai'' [''f3'', ''e5'', ''g4'', ''Qh4#''] ''0-1'') True,
      StartingNewGame,
      StartingMove 1 ''openai'', GetMove ''openai'' '''' False '''',
      AppliedMove ''f3'' ''openai'',
      Exec (snap ''f3'' ''openai'' [''f3''] '''') None,
      ChanSend AfterSave (snap ''f3'' ''openai'' [''f3''] '''') True,
      ChanSend InLoop (snap ''f3'' ''openai'' [''f3''] ''*'') True,
      Sleep 3]"
  by (simp add: run_defs)

section \<open>Move acquisition\<close>

lemma requests_makeMove: "requests (snd (snd (makeMove L e player s))) \<le> 3"
proof (cases rule: makeMove_cases[where L=L and e=e and player=player and s=s])
  case (gave_up pre)
  then show ?thesis by simp
next
  case (panics pre msg k)
  then show ?thesis by simp
next
  case (no_db pre move g k)
  then show ?thesis by (simp add: requests_append)
next
  case (exec_error pre move g rows err k)
  then show ?thesis by (simp add: requests_append)
next
  case (saved pre move g rows sent k)
  then show ?thesis by (simp add: requests_append)
qed

lemma attempt_fails_not_applied:
  "attempt_fails L e player s k \<Longrightarrow> getMove e k player = Inr move \<Longrightarrow>
   chess_MoveStr L (game s) move = Inr g \<Longrightarrow> False"
  by (simp add: attempt_fails_def)

lemma attempt_fails_no_panic:
  "attempt_fails L e player s k \<Longrightarrow> getMove e k player = Inl (Panic msg) \<Longrightarrow> False"
  by (simp add: attempt_fails_def)

text \<open>
  When each of the three attempts fails with a returned error or a rejected move,
  \<^verbatim>\<open>makeMove\<close> gives up after exactly three requests and leaves the state as it
  was.
\<close>

lemma makeMove_all_fail:
  assumes "\<forall>k<3. attempt_fails L e player s k"
  shows "\<exists>pre. list_all attempt_log pre \<and> requests pre = 3 \<and>
           makeMove L e player s =
             (Some (Error ''failed to get a valid move after 3 attempts''), s, pre)"
proof (cases rule: makeMove_cases[where L=L and e=e and player=player and s=s])
  case (gave_up pre)
  then show ?thesis by blast
next
  case (panics pre msg k)
  with assms attempt_fails_no_panic[of L e player s k msg] show ?thesis by blast
next
  case (no_db pre move g k)
  with assms attempt_fails_not_applied[of L e player s k move g] show ?thesis by blast
next
  case (exec_error pre move g rows err k)
  with assms attempt_fails_not_applied[of L e player s k move g] show ?thesis by blast
next
  case (saved pre move g rows sent k)
  with assms attempt_fails_not_applied[of L e player s k move g] show ?thesis by blast
qed

text \<open>
  C7. The claim fails on the code. At the start of a game the reply of OpenAI arrives
  without an error and holds no choice. \<^verbatim>\<open>getOpenAIMove\<close> indexes
  \<^verbatim>\<open>resp.Choices[0]\<close> and panics; the panic passes through \<^verbatim>\<open>getMove\<close>,
  \<^verbatim>\<open>makeMove\<close> and \<^verbatim>\<open>playGame\<close>, and the process exits. This is the first of
  the three attempts: one request was made, \<^verbatim>\<open>playGame\<close> reports no failed move
  and does not sleep and retry, and the environment of a second pass is never used.
  The same reply from Anthropic is an error of \<^verbatim>\<open>getAnthropicMove\<close>, which tests
  the length first: its three attempts fail, \<^verbatim>\<open>playGame\<close> reports one failure for
  the slot and asks the same slot again in the next pass, where the move is applied.
\<close>

theorem empty_reply_ends_the_process:
  "getMove (no_choices (answers ''f3'')) 0 ''openai'' =
     Inl (Panic ''runtime error: index out of range [0] with length 0'') \<and>
   makeMove fools_mate (no_choices (answers ''f3'')) ''openai'' (main_state fools_mate) =
     (Some (Panic ''runtime error: index out of range [0] with length 0''),
      main_state fools_mate, [GetMove ''openai'' '''' False '''']) \<and>
   playGame fools_mate [no_choices (answers ''f3''), answers ''f3''] (main_state fools_mate) =
     ([StartingMove 1 ''openai'', GetMove ''openai'' '''' False '''',
       Panicked ''runtime error: index out of range [0] with length 0''],
      (0, 0, main_state fools_mate)) \<and>
   getMove (no_content (answers ''e5'')) 0 ''anthropic'' =
     Inl (Error ''empty completion from Anthropic'') \<and>
   fst (playGame fools_mate [answers ''f3'', no_content (answers ''e5''), answers ''e5'']
          (main_state fools_mate)) =
     [StartingMove 1 ''openai'', GetMove ''openai'' '''' False '''',
      AppliedMove ''f3'' ''openai'',
      Exec (snap ''f3'' ''openai'' [''f3''] '''') None,
      ChanSend AfterSave (snap ''f3'' ''openai'' [''f3''] '''') True,
      ChanSend InLoop (snap ''f3'' ''openai'' [''f3''] ''*'') True,
      Sleep 3,
      StartingMove 2 ''anthropic'',
      GetMove ''anthropic'' ''f3'' False '''',
      ErrorGettingMove ''anthropic'' 1 ''empty completion from Anthropic'',
      GetMove ''anthropic'' ''f3'' True '''',
      ErrorGettingMove ''anthropic'' 2 ''empty completion from Anthropic'',
      GetMove ''anthropic'' ''f3'' True '''',
      ErrorGettingMove ''anthropic'' 3 ''empty completion from Anthropic'',
      ErrorMakingMove ''anthropic'' ''failed to get a valid move after 3 attempts'',
      Sleep 5,
      StartingMove 2 ''anthropic'', GetMove ''anthropic'' ''f3'' False '''',
      AppliedMove ''e5'' ''anthropic'',
      Exec (snap ''e5'' ''anthropic'' [''f3'', ''e5''] '''') None,
      ChanSend AfterSave (snap ''e5'' ''anthropic'' [''f3'', ''e5''] '''') True,
      ChanSend InLoop (snap ''e5'' ''anthropic'' [''f3'', ''e5''] ''*'') True,
      Sleep 3]"
  by (simp add: run_defs no_choices_def no_content_def)

section \<open>The bounded channel\<close>

lemma length_offer: "length ch \<le> 100 \<Longrightarrow> length (offer n x ch) \<le> 100"
  by (auto simp: offer_def select_send_eq)

lemma offer_eq:
  "offer n x ch = (if length (drop n ch) < 100 then drop n ch @ [x] else drop n ch)"
  by (simp add: offer_def select_send_eq)

lemma offer_sent_eq: "offer_sent n x ch = (length (drop n ch) < 100)"
  by (simp add: offer_sent_def select_send_eq)

lemma apply_move_simps:
  "game (apply_move g move s) = g"
  "lastMove (apply_move g move s) = move"
  "moveHistory (apply_move g move s) = moveHistory s @ [move]"
  "db (apply_move g move s) = db s"
  "gameStateChannel (apply_move g move s) = gameStateChannel s"
  by (simp_all add: apply_move_def)

lemma snapshot_frame: "snapshot L (s\<lparr>db := d, gameStateChannel := c\<rparr>) = snapshot L s"
  by (simp add: snapshot_def fun_eq_iff)

lemma playGame_pass_channel:
  assumes "length (gameStateChannel s) \<le> 100"
  shows "length (gameStateChannel (snd (snd (snd (playGame_pass L e (playerIndex, moveCount, s))))))
           \<le> 100"
proof (cases rule: playGame_pass_cases[where L=L and e=e and s=s and playerIndex=playerIndex
      and moveCount=moveCount])
  case over_no_db
  with assms show ?thesis by (simp add: initGame_def)
next
  case (over_exec_error rows err)
  with assms show ?thesis by (simp add: initGame_def)
next
  case (over_saved rows g)
  with assms show ?thesis by (simp add: initGame_def length_offer)
next
  case (gave_up pre)
  with assms show ?thesis by simp
next
  case (panics pre msg k)
  with assms show ?thesis by simp
next
  case (move_no_db pre move g k)
  with assms show ?thesis by (simp add: apply_move_def)
next
  case (move_exec_error pre move g k rows err)
  with assms show ?thesis by (simp add: apply_move_def)
next
  case (move_saved pre move g k rows g1 g2 ch1)
  with assms show ?thesis by (simp add: apply_move_def length_offer)
qed

lemma playGame_from_channel:
  "length (gameStateChannel (snd (snd st))) \<le> 100 \<Longrightarrow>
   length (gameStateChannel (snd (snd (snd (playGame_from L es st))))) \<le> 100"
proof (induction es arbitrary: st)
  case Nil
  then show ?case by simp
next
  case (Cons e es)
  obtain playerIndex moveCount s where st: "st = (playerIndex, moveCount, s)"
    by (cases st) auto
  have "length (gameStateChannel (snd (snd (snd (playGame_pass L e st))))) \<le> 100"
    using Cons.prems playGame_pass_channel[of s L e playerIndex moveCount] by (simp add: st)
  from Cons.IH[OF this] this show ?case
    by (simp add: case_prod_beta)
qed

text \<open>
  What the two sends of a pass do to the channel. A pass of the loop body in which
  \<^verbatim>\<open>makeMove\<close> returns nil sends twice, first in \<^verbatim>\<open>saveGameState\<close> and then in
  \<^verbatim>\<open>playGame\<close>; the pass after the loop sends once, in \<^verbatim>\<open>saveGameState\<close>, when
  the INSERT succeeded; no other pass sends or touches the channel.
\<close>

lemma playGame_pass_sends:
  "(case playGame_pass L e (playerIndex, moveCount, s) of
      (evs, playerIndex', moveCount', s') \<Rightarrow>
        if chess_Outcome L (game s) = NoOutcome then
          if fst (makeMove L e (players ! playerIndex) s) = None then
            (let g1 = snapshot L s' (lastMove s') (players ! playerIndex) '''';
                 g2 = snapshot L s' (lastMove s') (players ! playerIndex)
                        (Outcome_String (chess_Outcome L (game s')));
                 ch1 = drop (received_before_save e) (gameStateChannel s);
                 ch2 = drop (received_before_send e)
                         (if length ch1 < 100 then ch1 @ [g1] else ch1)
             in sends evs = [(AfterSave, g1, length ch1 < 100), (InLoop, g2, length ch2 < 100)] \<and>
                gameStateChannel s' = (if length ch2 < 100 then ch2 @ [g2] else ch2) \<and>
                playerIndex' = (playerIndex + 1) mod 2 \<and> moveCount' = moveCount + 1)
          else sends evs = [] \<and> gameStateChannel s' = gameStateChannel s \<and>
               playerIndex' = playerIndex \<and> moveCount' = moveCount
        else
          (if db s \<noteq> None \<and> exec_error e = None then
             (let g = snapshot L s (lastMove s) (players ! playerIndex)
                        (Outcome_String (chess_Outcome L (game s)));
                  ch1 = drop (received_before_save e) (gameStateChannel s)
              in sends evs = [(AfterSave, g, length ch1 < 100)] \<and>
                 gameStateChannel s' = (if length ch1 < 100 then ch1 @ [g] else ch1))
           else sends evs = [] \<and> gameStateChannel s' = gameStateChannel s) \<and>
          playerIndex' = 0 \<and> moveCount' = 0)"
proof (cases rule: playGame_pass_cases[where L=L and e=e and s=s and playerIndex=playerIndex
      and moveCount=moveCount])
  case over_no_db
  then show ?thesis by (simp add: initGame_def)
next
  case (over_exec_error rows err)
  then show ?thesis by (simp add: initGame_def)
next
  case (over_saved rows g)
  then show ?thesis by (simp add: initGame_def offer_eq offer_sent_eq Let_def)
next
  case (gave_up pre)
  then show ?thesis by (simp add: sends_append attempt_log_silent)
next
  case (panics pre msg k)
  then show ?thesis by (simp add: sends_append attempt_log_silent)
next
  case (move_no_db pre move g k)
  then show ?thesis by (simp add: sends_append attempt_log_silent apply_move_simps)
next
  case (move_exec_error pre move g k rows err)
  then show ?thesis by (simp add: sends_append attempt_log_silent apply_move_simps)
next
  case (move_saved pre move g k rows g1 g2 ch1)
  let ?s1 = "(apply_move g move s)\<lparr>db := Some (rows @ [row_of g1]),
              gameStateChannel := offer (received_before_send e) g2 ch1\<rparr>"
  have g1: "snapshot L ?s1 (lastMove ?s1) (players ! playerIndex) '''' = g1"
    and g2: "snapshot L ?s1 (lastMove ?s1) (players ! playerIndex)
               (Outcome_String (chess_Outcome L (game ?s1))) = g2"
    using move_saved(9,10) by (simp_all add: snapshot_frame apply_move_simps)
  have ch1: "ch1 = (if length (drop (received_before_save e) (gameStateChannel s)) < 100
        then drop (received_before_save e) (gameStateChannel s) @ [g1]
        else drop (received_before_save e) (gameStateChannel s))"
    using move_saved(11) by (simp only: offer_eq)
  have sends: "sends (fst (playGame_pass L e (playerIndex, moveCount, s))) =
      [(AfterSave, g1, length (drop (received_before_save e) (gameStateChannel s)) < 100),
       (InLoop, g2, length (drop (received_before_send e) ch1) < 100)]"
    using move_saved(2) unfolding move_saved(12)
    by (simp add: sends_append attempt_log_silent offer_sent_eq del: length_drop)
  have chan: "gameStateChannel ?s1 =
      (if length (drop (received_before_send e) ch1) < 100
       then drop (received_before_send e) ch1 @ [g2] else drop (received_before_send e) ch1)"
    by (simp add: offer_eq del: length_drop)
  show ?thesis
    unfolding move_saved(12) prod.case Let_def g1 g2
    using move_saved(1,13) sends[unfolded move_saved(12) fst_conv] chan ch1
    by (simp only: if_True) simp
qed

text \<open>
  With no observer task, nothing leaves the channel: it takes what it is offered
  until it holds 100 snapshots, and nothing after that.
\<close>

lemma take_take_append: "take n (take n xs @ ys) = take n (xs @ ys)"
  by (cases "length xs \<le> n") simp_all

lemma offer_no_observers:
  "length ch \<le> 100 \<Longrightarrow> offer 0 x ch = take 100 (ch @ [x])"
  "length ch \<le> 100 \<Longrightarrow> offer_sent 0 x ch = (length ch < 100)"
  by (auto simp: offer_eq offer_sent_eq)

lemma playGame_pass_no_observers:
  assumes "length (gameStateChannel s) \<le> 100"
  shows "gameStateChannel (snd (snd (snd (playGame_pass L (no_observers e) (playerIndex, moveCount, s))))) =
           take 100 (gameStateChannel s @
             offered (fst (playGame_pass L (no_observers e) (playerIndex, moveCount, s)))) \<and>
         taken (fst (playGame_pass L (no_observers e) (playerIndex, moveCount, s))) =
           take (100 - length (gameStateChannel s))
             (offered (fst (playGame_pass L (no_observers e) (playerIndex, moveCount, s))))"
proof (cases rule: playGame_pass_cases[where L=L and e="no_observers e" and s=s
      and playerIndex=playerIndex and moveCount=moveCount])
  case over_no_db
  with assms show ?thesis by (simp add: initGame_def)
next
  case (over_exec_error rows err)
  with assms show ?thesis by (simp add: initGame_def)
next
  case (over_saved rows g)
  with assms show ?thesis
    by (auto simp: initGame_def no_observers_def offer_no_observers)
next
  case (gave_up pre)
  with assms show ?thesis by (simp add: offered_append taken_append attempt_log_silent)
next
  case (panics pre msg k)
  with assms show ?thesis by (simp add: offered_append taken_append attempt_log_silent)
next
  case (move_no_db pre move g k)
  with assms show ?thesis
    by (simp add: offered_append taken_append attempt_log_silent apply_move_simps)
next
  case (move_exec_error pre move g k rows err)
  with assms show ?thesis
    by (simp add: offered_append taken_append attempt_log_silent apply_move_simps)
next
  case (move_saved pre move g k rows g1 g2 ch1)
  have ch1: "ch1 = take 100 (gameStateChannel s @ [g1])" "length ch1 \<le> 100"
    using assms move_saved(11) by (simp_all add: no_observers_def offer_no_observers)
  have flags: "offer_sent (received_before_save (no_observers e)) g1 (gameStateChannel s) =
        (length (gameStateChannel s) < 100)"
      "offer_sent (received_before_send (no_observers e)) g2 ch1 = (length ch1 < 100)"
    using assms ch1(2) by (simp_all add: no_observers_def offer_no_observers)
  have "offer (received_before_send (no_observers e)) g2 ch1 =
      take 100 (gameStateChannel s @ [g1, g2])"
    using ch1 take_take_append[of 100 "gameStateChannel s @ [g1]" "[g2]"]
    by (simp add: no_observers_def offer_no_observers)
  moreover have "(length ch1 < 100) = (length (gameStateChannel s) < 99)"
    using assms ch1(1) by auto
  ultimately show ?thesis
    using move_saved(2,12) flags assms
    by (auto simp: offered_append taken_append attempt_log_silent apply_move_simps take_Cons')
qed

lemma playGame_from_no_observers:
  "length (gameStateChannel s) \<le> 100 \<Longrightarrow>
   gameStateChannel (snd (snd (snd (playGame_from L (map no_observers es) (playerIndex, moveCount, s))))) =
     take 100 (gameStateChannel s @
       offered (fst (playGame_from L (map no_observers es) (playerIndex, moveCount, s)))) \<and>
   taken (fst (playGame_from L (map no_observers es) (playerIndex, moveCount, s))) =
     take (100 - length (gameStateChannel s))
       (offered (fst (playGame_from L (map no_observers es) (playerIndex, moveCount, s))))"
proof (induction es arbitrary: playerIndex moveCount s)
  case Nil
  then show ?case by simp
next
  case (Cons e es)
  let ?pass = "playGame_pass L (no_observers e) (playerIndex, moveCount, s)"
  obtain evs playerIndex1 moveCount1 s1 where
    pass: "?pass = (evs, playerIndex1, moveCount1, s1)"
    by (cases ?pass) auto
  have ch1: "gameStateChannel s1 = take 100 (gameStateChannel s @ offered evs)"
    and taken1: "taken evs = take (100 - length (gameStateChannel s)) (offered evs)"
    using playGame_pass_no_observers[OF Cons.prems, of L e playerIndex moveCount]
    by (simp_all add: pass)
  show ?case
  proof (cases "panicked evs")
    case True
    with ch1 taken1 show ?thesis
      by (simp add: pass)
  next
    case False
    let ?rest = "playGame_from L (map no_observers es) (playerIndex1, moveCount1, s1)"
    have len: "length (gameStateChannel s1) \<le> 100"
      by (simp add: ch1)
    from Cons.IH[OF len, of playerIndex1 moveCount1]
    have ch2: "gameStateChannel (snd (snd (snd ?rest))) =
          take 100 (gameStateChannel s1 @ offered (fst ?rest))"
      and taken2: "taken (fst ?rest) =
          take (100 - length (gameStateChannel s1)) (offered (fst ?rest))"
      by simp_all
    have "gameStateChannel (snd (snd (snd ?rest))) =
        take 100 (gameStateChannel s @ offered evs @ offered (fst ?rest))"
      using ch2 take_take_append[of 100 "gameStateChannel s @ offered evs" "offered (fst ?rest)"]
      by (simp add: ch1)
    moreover have "taken evs @ taken (fst ?rest) =
        take (100 - length (gameStateChannel s)) (offered evs @ offered (fst ?rest))"
      using Cons.prems by (simp add: taken1 taken2 ch1 min_def)
    moreover have "playGame_from L (map no_observers (e # es)) (playerIndex, moveCount, s) =
        (evs @ fst ?rest, snd ?rest)"
      using False by (simp add: pass case_prod_beta)
    ultimately show ?thesis
      by (simp add: offered_append taken_append)
  qed
qed

text \<open>
  C9. The claim holds: a publish is a \<^verbatim>\<open>select\<close> with a \<^verbatim>\<open>default\<close> branch at
  both places that send, and the loop goes on whether or not the channel takes the
  snapshot. In a pass of the loop body in which \<^verbatim>\<open>makeMove\<close> returns nil, the
  snapshot of \<^verbatim>\<open>saveGameState\<close> is appended to the buffer as the observers have
  left it when it holds fewer than 100 snapshots, and otherwise dropped with the
  buffer as it was; then the same holds for the snapshot of \<^verbatim>\<open>playGame\<close>; in
  every case \<open>playerIndex\<close> and \<open>moveCount\<close> advance. The pass after the loop does
  the same with the final snapshot when its INSERT succeeded, and starts the new game in
  every case. No other pass sends or changes the channel. With no observer at all, the
  channel holds the first 100 snapshots ever offered, exactly these were taken, and
  the run goes on; and in every run the channel holds at most 100 snapshots.
\<close>

theorem publish_never_blocks:
  "(playerIndex < 2 \<longrightarrow>
    (case playGame_pass L e (playerIndex, moveCount, s) of
      (evs, playerIndex', moveCount', s') \<Rightarrow>
        if chess_Outcome L (game s) = NoOutcome then
          if fst (makeMove L e (players ! playerIndex) s) = None then
            (let g1 = snapshot L s' (lastMove s') (players ! playerIndex) '''';
                 g2 = snapshot L s' (lastMove s') (players ! playerIndex)
                        (Outcome_String (chess_Outcome L (game s')));
                 ch1 = drop (received_before_save e) (gameStateChannel s);
                 ch2 = drop (received_before_send e)
                         (if length ch1 < 100 then ch1 @ [g1] else ch1)
             in sends evs = [(AfterSave, g1, length ch1 < 100), (InLoop, g2, length ch2 < 100)] \<and>
                gameStateChannel s' = (if length ch2 < 100 then ch2 @ [g2] else ch2) \<and>
                playerIndex' = (playerIndex + 1) mod 2 \<and> moveCount' = moveCount + 1)
          else sends evs = [] \<and> gameStateChannel s' = gameStateChannel s \<and>
               playerIndex' = playerIndex \<and> moveCount' = moveCount
        else
          (if db s \<noteq> None \<and> exec_error e = None then
             (let g = snapshot L s (lastMove s) (players ! playerIndex)
                        (Outcome_String (chess_Outcome L (game s)));
                  ch1 = drop (received_before_save e) (gameStateChannel s)
              in sends evs = [(AfterSave, g, length ch1 < 100)] \<and>
                 gameStateChannel s' = (if length ch1 < 100 then ch1 @ [g] else ch1))
           else sends evs = [] \<and> gameStateChannel s' = gameStateChannel s) \<and>
          playerIndex' = 0 \<and> moveCount' = 0)) \<and>
   (case playGame L (map no_observers es) (main_state L) of
      (tr, playerIndex', moveCount', s') \<Rightarrow>
        gameStateChannel s' = take 100 (offered tr) \<and> taken tr = take 100 (offered tr)) \<and>
   length (gameStateChannel (snd (snd (snd (playGame L es (main_state L)))))) \<le> 100"
proof (intro conjI)
  show "case playGame L (map no_observers es) (main_state L) of
      (tr, playerIndex', moveCount', s') \<Rightarrow>
        gameStateChannel s' = take 100 (offered tr) \<and> taken tr = take 100 (offered tr)"
    using playGame_from_no_observers[of "main_state L" L es 0 0]
    by (simp add: playGame_def case_prod_beta main_state_def initGame_def)
  show "length (gameStateChannel (snd (snd (snd (playGame L es (main_state L)))))) \<le> 100"
    unfolding playGame_def
    by (rule playGame_from_channel) (simp add: main_state_def initGame_def)
qed (simp add: playGame_pass_sends)

text \<open>
  For example: the first move of a game arrives while the channel is full and no
  observer is attached. Both snapshots are dropped, the channel is as it was, and the
  turn passes to Anthropic.
\<close>

theorem publish_never_blocks_witness:
  "(0::nat) < 2 \<and>
   (case playGame_pass fools_mate (answers ''f3'')
           (0, 0, (main_state fools_mate)\<lparr>gameStateChannel := full_channel\<rparr>) of
      (evs, playerIndex', moveCount', s') \<Rightarrow>
        sends evs = [(AfterSave, snap ''f3'' ''openai'' [''f3''] '''', False),
                     (InLoop, snap ''f3'' ''openai'' [''f3''] ''*'', False)] \<and>
        gameStateChannel s' = full_channel \<and> playerIndex' = 1 \<and> moveCount' = 1 \<and>
        applied evs = [(''f3'', ''openai'')] \<and>
        db s' = Some [row_of (snap ''f3'' ''openai'' [''f3''] '''')])"
  using publish_never_blocks[where L=fools_mate and e="answers ''f3''" and playerIndex=0
      and moveCount=0 and s="(main_state fools_mate)\<lparr>gameStateChannel := full_channel\<rparr>"
      and es="[]"]
  by (simp add: run_defs full_channel_def)

section \<open>A persistence write that fails\<close>

text \<open>
  C1. The claim fails on the code. OpenAI answers \<^verbatim>\<open>f3\<close> at the first attempt, the
  rules engine accepts it, and the INSERT fails. \<^verbatim>\<open>makeMove\<close> returns the error of
  \<^verbatim>\<open>saveGameState\<close>, so \<^verbatim>\<open>playGame\<close> reports an error making the move and
  sleeps five seconds: the pass ends with \<open>playerIndex\<close> and \<open>moveCount\<close> still 0
  and nothing was offered to the channel, although the move is applied to the game,
  \<open>lastMove\<close> and \<open>moveHistory\<close>.
\<close>

theorem failed_save_holds_the_turn:
  "playGame fools_mate [disk_full (answers ''f3'')] (main_state fools_mate) =
     ([StartingMove 1 ''openai'', GetMove ''openai'' '''' False '''',
       AppliedMove ''f3'' ''openai'',
       Exec (snap ''f3'' ''openai'' [''f3''] '''') (Some ''disk full''),
       ErrorMakingMove ''openai'' ''error saving game state: disk full'', Sleep 5],
      (0, 0, \<lparr>db = Some [], game = 1, moveHistory = [''f3''], gameStateChannel = [],
              lastMove = ''f3''\<rparr>))"
  by (simp add: run_defs)

text \<open>
  C6. The claim fails on the code, by the defect of C1. In the first pass OpenAI's one
  request is answered with a move that is applied, and the INSERT fails; the second pass
  is OpenAI's again, and its move \<^verbatim>\<open>e5\<close> is applied as the second move of the game.
  The slot repeats although move acquisition was not exhausted.
\<close>

theorem failed_save_repeats_the_slot:
  "requests (fst (playGame fools_mate [disk_full (answers ''f3'')] (main_state fools_mate))) = 1 \<and>
   turn_slots (fst (playGame fools_mate [disk_full (answers ''f3''), answers ''e5'']
                      (main_state fools_mate))) = [''openai'', ''openai''] \<and>
   applied (fst (playGame fools_mate [disk_full (answers ''f3''), answers ''e5'']
                   (main_state fools_mate))) = [(''f3'', ''openai''), (''e5'', ''openai'')]"
  by (simp add: run_defs)

section \<open>The snapshot of a finished game\<close>

lemma fools_mate_whole_game:
  "fst (playGame fools_mate fools_mate_game (main_state fools_mate)) =
     [StartingMove 1 ''openai'', GetMove ''openai'' '''' False '''',
      AppliedMove ''f3'' ''openai'',
      Exec (snap ''f3'' ''openai'' [''f3''] '''') None,
      ChanSend AfterSave (snap ''f3'' ''openai'' [''f3''] '''') True,
      ChanSend InLoop (snap ''f3'' ''openai'' [''f3''] ''*'') True,
      Sleep 3,
      StartingMove 2 ''anthropic'', GetMove ''anthropic'' ''f3'' False '''',
      AppliedMove ''e5'' ''anthropic'',
      Exec (snap ''e5'' ''anthropic'' [''f3'', ''e5''] '''') None,
      ChanSend AfterSave (snap ''e5'' ''anthropic'' [''f3'', ''e5''] '''') True,
      ChanSend InLoop (snap ''e5'' ''anthropic'' [''f3'', ''e5''] ''*'') True,
      Sleep 3,
      StartingMove 3 ''openai'', GetMove ''openai'' ''f3 e5'' False '''',
      AppliedMove ''g4'' ''openai'',
      Exec (snap ''g4'' ''openai'' [''f3'', ''e5'', ''g4''] '''') None,
      ChanSend AfterSave (snap ''g4'' ''openai'' [''f3'', ''e5'', ''g4''] '''') True,
      ChanSend InLoop (snap ''g4'' ''openai'' [''f3'', ''e5'', ''g4''] ''*'') True,
      Sleep 3,
      StartingMove 4 ''anthropic'', GetMove ''anthropic'' ''f3 e5 g4'' False '''',
      AppliedMove ''Qh4#'' ''anthropic'',
      Exec (snap ''Qh4#'' ''anthropic'' [''f3'', ''e5'', ''g4'', ''Qh4#''] '''') None,
      ChanSend AfterSave (snap ''Qh4#'' ''anthropic'' [''f3'', ''e5'', ''g4'', ''Qh4#''] '''') True,
      ChanSend InLoop (snap ''Qh4#'' ''anthropic'' [''f3'', ''e5'', ''g4'', ''Qh4#''] ''0-1'') True,
      Sleep 3,
      GameOver ''0-1'',
      Exec (snap ''Qh4#'' ''openai'' [''f3'', ''e5'', ''g4'', ''Qh4#''] ''0-1'') None,
      ChanSend AfterSave (snap ''Qh4#'' ''openai'' [''f3'', ''e5'', ''g4'', ''Qh4#''] ''0-1'') True,
      StartingNewGame]"
  by (simp add: run_defs)

text \<open>
  C4. The claim fails on the code. In the game 1. f3 e5 2. g4 Qh4 mate the last move
  is Anthropic's. The loop body has advanced \<open>playerIndex\<close> by the time the loop
  ends, so the call \<^verbatim>\<open>saveGameState(players[playerIndex], lastMove, ...)\<close> after the
  loop names OpenAI: the final snapshot, persisted and sent, pairs the move
  \<^verbatim>\<open>Qh4#\<close> with the slot that did not make it.
\<close>

theorem final_snapshot_names_the_other_slot:
  "last (applied (fst (playGame fools_mate fools_mate_game (main_state fools_mate)))) =
     (''Qh4#'', ''anthropic'') \<and>
   last (persisted (fst (playGame fools_mate fools_mate_game (main_state fools_mate)))) =
     snap ''Qh4#'' ''openai'' [''f3'', ''e5'', ''g4'', ''Qh4#''] ''0-1'' \<and>
   last (sends (fst (playGame fools_mate fools_mate_game (main_state fools_mate)))) =
     (AfterSave, snap ''Qh4#'' ''openai'' [''f3'', ''e5'', ''g4'', ''Qh4#''] ''0-1'', True)"
  by (simp add: fools_mate_whole_game)

section \<open>Two snapshots for a saved move\<close>

text \<open>
  C10, as stated, fails on the code: a move that is applied while the INSERT fails is
  offered to the channel not even once.
\<close>

theorem applied_move_not_offered:
  "applied (fst (playGame fools_mate [disk_full (answers ''f3'')] (main_state fools_mate))) =
     [(''f3'', ''openai'')] \<and>
   sends (fst (playGame fools_mate [disk_full (answers ''f3'')] (main_state fools_mate))) = []"
  by (simp add: run_defs)

lemma Outcome_String_not_empty: "Outcome_String out \<noteq> ''''"
  by (cases out) simp_all

lemma Outcome_String_in_progress: "Outcome_String out = ''*'' \<longleftrightarrow> out = NoOutcome"
  by (cases out) simp_all

text \<open>
  C10, amended. When \<^verbatim>\<open>makeMove\<close> returns no error (a move was applied and its
  INSERT succeeded), the pass offers exactly two snapshots to the channel: first the
  one of \<^verbatim>\<open>saveGameState\<close> with the empty outcome, then the one of the loop body with
  the outcome text of the rules engine. They agree in position, move, player and
  history, and differ in the outcome, which is \<^verbatim>\<open>*\<close> in the second one while the
  game goes on. The channel takes each one when it has room at that moment.
\<close>

theorem saved_move_is_offered_twice:
  "playerIndex < 2 \<and> chess_Outcome L (game s) = NoOutcome \<and>
   fst (makeMove L e (players ! playerIndex) s) = None \<longrightarrow>
   (case playGame_pass L e (playerIndex, moveCount, s) of (evs, playerIndex', moveCount', s') \<Rightarrow>
      applied evs = [(lastMove s', players ! playerIndex)] \<and>
      sends evs =
        [(AfterSave, snapshot L s' (lastMove s') (players ! playerIndex) '''',
            length (drop (received_before_save e) (gameStateChannel s)) < 100),
         (InLoop, snapshot L s' (lastMove s') (players ! playerIndex)
                    (Outcome_String (chess_Outcome L (game s'))),
            length (drop (received_before_send e)
                      (offer (received_before_save e)
                         (snapshot L s' (lastMove s') (players ! playerIndex) '''')
                         (gameStateChannel s))) < 100)] \<and>
      Outcome_String (chess_Outcome L (game s')) \<noteq> '''' \<and>
      (Outcome_String (chess_Outcome L (game s')) = ''*'') = (chess_Outcome L (game s') = NoOutcome))"
proof (intro impI, elim conjE)
  assume "playerIndex < 2"
    and open_game: "chess_Outcome L (game s) = NoOutcome"
    and ok: "fst (makeMove L e (players ! playerIndex) s) = None"
  show "case playGame_pass L e (playerIndex, moveCount, s) of (evs, playerIndex', moveCount', s') \<Rightarrow>
      applied evs = [(lastMove s', players ! playerIndex)] \<and>
      sends evs =
        [(AfterSave, snapshot L s' (lastMove s') (players ! playerIndex) '''',
            length (drop (received_before_save e) (gameStateChannel s)) < 100),
         (InLoop, snapshot L s' (lastMove s') (players ! playerIndex)
                    (Outcome_String (chess_Outcome L (game s'))),
            length (drop (received_before_send e)
                      (offer (received_before_save e)
                         (snapshot L s' (lastMove s') (players ! playerIndex) '''')
                         (gameStateChannel s))) < 100)] \<and>
      Outcome_String (chess_Outcome L (game s')) \<noteq> '''' \<and>
      (Outcome_String (chess_Outcome L (game s')) = ''*'') = (chess_Outcome L (game s') = NoOutcome)"
  proof (cases rule: playGame_pass_cases[where L=L and e=e and s=s and playerIndex=playerIndex
        and moveCount=moveCount])
    case over_no_db
    with open_game show ?thesis by simp
  next
    case (over_exec_error rows err)
    with open_game show ?thesis by simp
  next
    case (over_saved rows g)
    with open_game show ?thesis by simp
  next
    case (gave_up pre)
    with ok show ?thesis by simp
  next
    case (panics pre msg k)
    with ok show ?thesis by simp
  next
    case (move_no_db pre move g k)
    with ok show ?thesis by simp
  next
    case (move_exec_error pre move g k rows err)
    with ok show ?thesis by simp
  next
    case (move_saved pre move g k rows g1 g2 ch1)
    then show ?thesis
      by (simp add: sends_append applied_append attempt_log_silent snapshot_frame
          apply_move_simps offer_sent_eq Outcome_String_not_empty Outcome_String_in_progress)
  qed
qed

text \<open>For example: the first move of the example game, saved and offered twice.\<close>

theorem saved_move_is_offered_twice_witness:
  "chess_Outcome fools_mate (game (main_state fools_mate)) = NoOutcome \<and>
   fst (makeMove fools_mate (answers ''f3'') (players ! 0) (main_state fools_mate)) = None \<and>
   sends (fst (playGame_pass fools_mate (answers ''f3'') (0, 0, main_state fools_mate))) =
     [(AfterSave, snap ''f3'' ''openai'' [''f3''] '''', True),
      (InLoop, snap ''f3'' ''openai'' [''f3''] ''*'', True)]"
proof -
  have open_game: "chess_Outcome fools_mate (game (main_state fools_mate)) = NoOutcome"
    by (simp add: run_defs)
  have ok: "fst (makeMove fools_mate (answers ''f3'') (players ! 0) (main_state fools_mate)) = None"
    by (simp add: run_defs)
  have slot: "(0::nat) < 2"
    by simp
  show ?thesis
    using saved_move_is_offered_twice[where L=fools_mate and s="main_state fools_mate"
        and e="answers ''f3''" and playerIndex=0 and moveCount=0,
        THEN mp, OF conjI[OF slot conjI[OF open_game ok]]] open_game ok
    unfolding fools_mate_pass_1
    by (simp add: snapshot_def snap_def offer_def select_send_eq players_def fools_mate_def
        line_chess_def)
qed

section \<open>The games of a trace\<close>

lemma split_games_not_empty: "split_games tr \<noteq> []"
  by (induction tr rule: split_games.induct) (simp_all split: list.splits)

lemma split_games_cons:
  "ev \<noteq> StartingNewGame \<Longrightarrow>
   split_games (ev # tr) = (ev # hd (split_games tr)) # tl (split_games tr)"
  using split_games_not_empty[of tr] by (cases ev; cases "split_games tr") simp_all




lemma split_games_append_open:
  "StartingNewGame \<notin> set evs \<Longrightarrow>
   split_games (evs @ tr) = (evs @ hd (split_games tr)) # tl (split_games tr)"
proof (induction evs)
  case Nil
  show ?case using split_games_not_empty[of tr] by simp
next
  case (Cons ev evs)
  then have ev: "ev \<noteq> StartingNewGame" and evs: "StartingNewGame \<notin> set evs"
    by auto
  show ?case
    using split_games_cons[OF ev, of "evs @ tr"] Cons.IH[OF evs] by simp
qed

lemma split_games_append_over:
  "StartingNewGame \<notin> set evs \<Longrightarrow>
   split_games (evs @ StartingNewGame # tr) = evs # split_games tr"
  by (simp add: split_games_append_open)

section \<open>The move history\<close>







section \<open>The first snapshot of a new game\<close>

lemma players_0: "players ! 0 = ''openai''"
  by (simp add: players_def)

lemma no_db_nothing_constructed:
  "db s = None \<Longrightarrow> constructed (fst (playGame_from L es (playerIndex, moveCount, s))) = []"
proof (induction es arbitrary: playerIndex moveCount s)
  case Nil
  show ?case by simp
next
  case (Cons e es)
  show ?case
  proof (cases rule: playGame_pass_cases[where L=L and e=e and s=s and playerIndex=playerIndex
        and moveCount=moveCount])
    case over_no_db
    with Cons.IH[of "initGame L s" 0 0] Cons.prems show ?thesis
      by (simp add: case_prod_beta constructed_append initGame_def)
  next
    case (gave_up pre)
    with Cons.IH[of s playerIndex moveCount] Cons.prems show ?thesis
      by (simp add: case_prod_beta constructed_append attempt_log_silent)
  next
    case (panics pre msg k)
    then show ?thesis
      by (simp add: constructed_append attempt_log_silent)
  next
    case (move_no_db pre move g k)
    with Cons.IH[of "apply_move g move s" playerIndex moveCount] Cons.prems show ?thesis
      by (simp add: case_prod_beta constructed_append attempt_log_silent apply_move_simps)
  qed (use Cons.prems in simp_all)
qed

lemma new_game_first_snapshot:
  assumes "chess_Outcome L (chess_NewGame L) = NoOutcome"
  shows "game s = chess_NewGame L \<Longrightarrow> moveHistory s = [] \<Longrightarrow>
    (case constructed (fst (playGame_from L es (0, moveCount, s))) of
       [] \<Rightarrow> True
     | g # gs \<Rightarrow> MoveHistory g = [LastMove g] \<and> GameOutcome g = '''' \<and> LastPlayer g = ''openai'')"
proof (induction es arbitrary: s)
  case Nil
  show ?case by simp
next
  case (Cons e es)
  show ?case
  proof (cases rule: playGame_pass_cases[where L=L and e=e and s=s and playerIndex=0
        and moveCount=moveCount])
    case (gave_up pre)
    with Cons.IH[of s] Cons.prems show ?thesis
      by (simp add: case_prod_beta constructed_append attempt_log_silent)
  next
    case (panics pre msg k)
    then show ?thesis
      by (simp add: constructed_append attempt_log_silent)
  next
    case (move_no_db pre move g k)
    with no_db_nothing_constructed[of "apply_move g move s" L es 0 moveCount] show ?thesis
      by (simp add: case_prod_beta constructed_append attempt_log_silent apply_move_simps)
  next
    case (move_exec_error pre move g k rows err)
    with Cons.prems show ?thesis
      by (simp add: case_prod_beta constructed_append attempt_log_silent apply_move_simps
          snapshot_def players_0)
  next
    case (move_saved pre move g k rows g1 g2 ch1)
    with Cons.prems show ?thesis
      by (simp add: case_prod_beta constructed_append attempt_log_silent apply_move_simps
          snapshot_def players_0)
  qed (use Cons.prems assms in simp_all)
qed

text \<open>
  The pass after the loop: what becomes of the final snapshot, and the state in which
  the new game starts.
\<close>

lemma playGame_pass_over:
  assumes "chess_Outcome L (game s) \<noteq> NoOutcome"
  shows "(case playGame_pass L e (playerIndex, moveCount, s) of
      (evs, playerIndex', moveCount', s') \<Rightarrow>
        (let final = snapshot L s (lastMove s) (players ! playerIndex)
                       (Outcome_String (chess_Outcome L (game s)))
         in constructed evs = (if db s = None then [] else [final]) \<and>
            (case db s of
               None \<Rightarrow> db s' = None
             | Some rows \<Rightarrow>
                 db s' = Some (if exec_error e = None then rows @ [row_of final] else rows)) \<and>
            sends evs =
              (if db s \<noteq> None \<and> exec_error e = None
               then [(AfterSave, final,
                      length (drop (received_before_save e) (gameStateChannel s)) < 100)]
               else [])) \<and>
        playerIndex' = 0 \<and> moveCount' = 0 \<and> game s' = chess_NewGame L \<and>
        moveHistory s' = [] \<and> lastMove s' = '''')"
proof (cases rule: playGame_pass_cases[where L=L and e=e and s=s and playerIndex=playerIndex
      and moveCount=moveCount])
  case over_no_db
  then show ?thesis by (simp add: initGame_def)
next
  case (over_exec_error rows err)
  then show ?thesis by (simp add: initGame_def)
next
  case (over_saved rows g)
  then show ?thesis by (simp add: initGame_def offer_sent_eq)
qed (use assms in simp_all)

text \<open>
  C3, as stated, fails on the code. After the game 1. f3 e5 2. g4 Qh4 mate the ninth
  snapshot constructed is the final one, with the outcome \<^verbatim>\<open>0-1\<close>. The next one is
  built by \<^verbatim>\<open>saveGameState\<close> after the first move of the new game: its history holds
  that move and its outcome is the empty string.
\<close>

theorem next_snapshot_has_a_move:
  "drop 8 (constructed (fst (playGame fools_mate (fools_mate_game @ [answers ''f3''])
                               (main_state fools_mate)))) =
     [snap ''Qh4#'' ''openai'' [''f3'', ''e5'', ''g4'', ''Qh4#''] ''0-1'',
      snap ''f3'' ''openai'' [''f3''] '''',
      snap ''f3'' ''openai'' [''f3''] ''*'']"
  by (simp add: fools_mate_run)

text \<open>
  C3, amended. When the game has an outcome at the head of the loop, the pass builds
  the final snapshot, with the text of that outcome, unless the database handle is
  nil; it hands it to the INSERT, and offers it to the channel only when the INSERT
  succeeded (the channel takes it when it has room). Whatever became of the final
  snapshot, the pass ends at the head of the loop of a new game: \<open>playerIndex\<close> is 0
  (the slot \<^verbatim>\<open>openai\<close>), the position is that of \<^verbatim>\<open>chess.NewGame()\<close>, and
  \<open>moveHistory\<close> and \<open>lastMove\<close> are empty. No snapshot is constructed for the
  empty position: the next one, if the run constructs one, is that of the first move
  applied in the new game. Its history holds exactly this move, its outcome is the
  empty string, and its player is \<^verbatim>\<open>openai\<close>.
\<close>

theorem new_game_after_outcome:
  "playerIndex < 2 \<and> chess_Outcome L (game s) \<noteq> NoOutcome \<and>
   chess_Outcome L (chess_NewGame L) = NoOutcome \<longrightarrow>
   (case playGame_pass L e (playerIndex, moveCount, s) of (evs, playerIndex', moveCount', s') \<Rightarrow>
      (let final = snapshot L s (lastMove s) (players ! playerIndex)
                     (Outcome_String (chess_Outcome L (game s)))
       in constructed evs = (if db s = None then [] else [final]) \<and>
          (case db s of
             None \<Rightarrow> db s' = None
           | Some rows \<Rightarrow>
               db s' = Some (if exec_error e = None then rows @ [row_of final] else rows)) \<and>
          sends evs =
            (if db s \<noteq> None \<and> exec_error e = None
             then [(AfterSave, final,
                    length (drop (received_before_save e) (gameStateChannel s)) < 100)]
             else [])) \<and>
      playerIndex' = 0 \<and> players ! playerIndex' = ''openai'' \<and>
      game s' = chess_NewGame L \<and> moveHistory s' = [] \<and> lastMove s' = '''' \<and>
      list_all (\<lambda>g. GameOutcome g = Outcome_String (chess_Outcome L (game s))) (constructed evs) \<and>
      (case constructed (fst (playGame_from L es (playerIndex', moveCount', s'))) of
         [] \<Rightarrow> True
       | g # gs \<Rightarrow>
           MoveHistory g = [LastMove g] \<and> GameOutcome g = '''' \<and> LastPlayer g = ''openai''))"
proof (intro impI, elim conjE)
  assume "playerIndex < 2"
    and over: "chess_Outcome L (game s) \<noteq> NoOutcome"
    and fresh: "chess_Outcome L (chess_NewGame L) = NoOutcome"
  obtain evs playerIndex' moveCount' s' where
    pass: "playGame_pass L e (playerIndex, moveCount, s) = (evs, playerIndex', moveCount', s')"
    by (cases "playGame_pass L e (playerIndex, moveCount, s)") auto
  let ?final = "snapshot L s (lastMove s) (players ! playerIndex)
                  (Outcome_String (chess_Outcome L (game s)))"
  from playGame_pass_over[OF over, where e=e and playerIndex=playerIndex and moveCount=moveCount]
  have final: "constructed evs = (if db s = None then [] else [?final])"
      "case db s of
         None \<Rightarrow> db s' = None
       | Some rows \<Rightarrow>
           db s' = Some (if exec_error e = None then rows @ [row_of ?final] else rows)"
      "sends evs =
         (if db s \<noteq> None \<and> exec_error e = None
          then [(AfterSave, ?final,
                 length (drop (received_before_save e) (gameStateChannel s)) < 100)]
          else [])"
    and reset: "playerIndex' = 0" "moveCount' = 0" "game s' = chess_NewGame L"
      "moveHistory s' = []" "lastMove s' = ''''"
    by (simp_all add: pass Let_def)
  have outcome: "list_all (\<lambda>g. GameOutcome g = Outcome_String (chess_Outcome L (game s)))
      (constructed evs)"
    by (simp add: final(1) snapshot_def)
  have first: "case constructed (fst (playGame_from L es (playerIndex', moveCount', s'))) of
         [] \<Rightarrow> True
       | g # gs \<Rightarrow>
           MoveHistory g = [LastMove g] \<and> GameOutcome g = '''' \<and> LastPlayer g = ''openai''"
    unfolding reset(1) by (rule new_game_first_snapshot[OF fresh reset(3,4)])
  show "case playGame_pass L e (playerIndex, moveCount, s) of (evs, playerIndex', moveCount', s') \<Rightarrow>
      (let final = snapshot L s (lastMove s) (players ! playerIndex)
                     (Outcome_String (chess_Outcome L (game s)))
       in constructed evs = (if db s = None then [] else [final]) \<and>
          (case db s of
             None \<Rightarrow> db s' = None
           | Some rows \<Rightarrow>
               db s' = Some (if exec_error e = None then rows @ [row_of final] else rows)) \<and>
          sends evs =
            (if db s \<noteq> None \<and> exec_error e = None
             then [(AfterSave, final,
                    length (drop (received_before_save e) (gameStateChannel s)) < 100)]
             else [])) \<and>
      playerIndex' = 0 \<and> players ! playerIndex' = ''openai'' \<and>
      game s' = chess_NewGame L \<and> moveHistory s' = [] \<and> lastMove s' = '''' \<and>
      list_all (\<lambda>g. GameOutcome g = Outcome_String (chess_Outcome L (game s))) (constructed evs) \<and>
      (case constructed (fst (playGame_from L es (playerIndex', moveCount', s'))) of
         [] \<Rightarrow> True
       | g # gs \<Rightarrow>
           MoveHistory g = [LastMove g] \<and> GameOutcome g = '''' \<and> LastPlayer g = ''openai'')"
    unfolding pass prod.case Let_def
    using final reset(1,3,4,5) outcome first players_0
    by (intro conjI) simp_all
qed

text \<open>
  For example: the pass after the mate when the INSERT fails. The final snapshot is
  constructed and neither saved nor sent, the new game starts all the same, and the
  next snapshot is that of its first move.
\<close>

theorem new_game_after_outcome_witness:
  "(0::nat) < 2 \<and> chess_Outcome fools_mate 4 \<noteq> NoOutcome \<and>
   chess_Outcome fools_mate (chess_NewGame fools_mate) = NoOutcome \<and>
   playGame_pass fools_mate (disk_full (answers ''''))
      (0, 4, \<lparr>db = Some [], game = 4, moveHistory = [''f3'', ''e5'', ''g4'', ''Qh4#''],
              gameStateChannel = [], lastMove = ''Qh4#''\<rparr>) =
     ([GameOver ''0-1'',
       Exec (snap ''Qh4#'' ''openai'' [''f3'', ''e5'', ''g4'', ''Qh4#''] ''0-1'') (Some ''disk full''),
       ErrorSavingFinal ''error saving game state: disk full'', StartingNewGame],
      (0, 0, \<lparr>db = Some [], game = 0, moveHistory = [], gameStateChannel = [],
              lastMove = ''''\<rparr>)) \<and>
   constructed (fst (playGame_from fools_mate [answers ''f3'']
      (snd (playGame_pass fools_mate (disk_full (answers ''''))
         (0, 4, \<lparr>db = Some [], game = 4, moveHistory = [''f3'', ''e5'', ''g4'', ''Qh4#''],
                 gameStateChannel = [], lastMove = ''Qh4#''\<rparr>))))) =
     [snap ''f3'' ''openai'' [''f3''] '''', snap ''f3'' ''openai'' [''f3''] ''*'']"
proof -
  have over: "chess_Outcome fools_mate 4 \<noteq> NoOutcome"
    by (simp add: run_defs)
  have fresh: "chess_Outcome fools_mate (chess_NewGame fools_mate) = NoOutcome"
    by (simp add: run_defs)
  have pass: "playGame_pass fools_mate (disk_full (answers ''''))
      (0, 4, \<lparr>db = Some [], game = 4, moveHistory = [''f3'', ''e5'', ''g4'', ''Qh4#''],
              gameStateChannel = [], lastMove = ''Qh4#''\<rparr>) =
     ([GameOver ''0-1'',
       Exec (snap ''Qh4#'' ''openai'' [''f3'', ''e5'', ''g4'', ''Qh4#''] ''0-1'') (Some ''disk full''),
       ErrorSavingFinal ''error saving game state: disk full'', StartingNewGame],
      (0, 0, \<lparr>db = Some [], game = 0, moveHistory = [], gameStateChannel = [],
              lastMove = ''''\<rparr>))"
    by (simp add: run_defs)
  have run: "constructed (fst (playGame_from fools_mate [answers ''f3'']
      (snd (playGame_pass fools_mate (disk_full (answers ''''))
         (0, 4, \<lparr>db = Some [], game = 4, moveHistory = [''f3'', ''e5'', ''g4'', ''Qh4#''],
                 gameStateChannel = [], lastMove = ''Qh4#''\<rparr>))))) =
     [snap ''f3'' ''openai'' [''f3''] '''', snap ''f3'' ''openai'' [''f3''] ''*'']"
    unfolding pass by (simp add: run_defs)
  show ?thesis
    using new_game_after_outcome[where L=fools_mate and e="disk_full (answers '''')"
        and playerIndex=0 and moveCount=4 and es="[answers ''f3'']" and
        s="\<lparr>db = Some [], game = 4, moveHistory = [''f3'', ''e5'', ''g4'', ''Qh4#''],
          gameStateChannel = [], lastMove = ''Qh4#''\<rparr>"]
      over fresh pass run
    by simp
qed

section \<open>Terminal outcomes on the channel\<close>

lemma terminal_snapshot:
  "terminal (snapshot L s move player outcome) = (outcome \<noteq> '''' \<and> outcome \<noteq> ''*'')"
  by (simp add: terminal_def snapshot_def)

lemma closing_simps:
  "closing [] = []"
  "closing (g # gs) = (if terminal g then g # gs else closing gs)"
  by (simp_all add: closing_def)

lemma filter_terminal_closing:
  "list_all terminal (closing gs) \<Longrightarrow> filter terminal gs = closing gs"
proof (induction gs)
  case Nil
  show ?case by (simp add: closing_simps)
next
  case (Cons g gs)
  then show ?case
    by (cases "terminal g") (simp_all add: closing_simps list_all_iff)
qed

text \<open>
  In every game of a run: once a snapshot with a terminal outcome is offered, at most
  one more follows, and it is terminal too. For the game being played at the start,
  nothing precedes the snapshot after the loop when the game already has its outcome.
\<close>

lemma games_close:
  "(chess_Outcome L (game s) \<noteq> NoOutcome \<longrightarrow>
      length (offered (hd (split_games (fst (playGame_from L es (playerIndex, moveCount, s)))))) \<le> 1 \<and>
      list_all terminal
        (offered (hd (split_games (fst (playGame_from L es (playerIndex, moveCount, s))))))) \<and>
   list_all (\<lambda>seg. length (closing (offered seg)) \<le> 2 \<and> list_all terminal (closing (offered seg)))
     (split_games (fst (playGame_from L es (playerIndex, moveCount, s))))"
proof (induction es arbitrary: playerIndex moveCount s)
  case Nil
  show ?case by (simp add: closing_simps)
next
  case (Cons e es)
  let ?good = "\<lambda>seg. length (closing (offered seg)) \<le> 2 \<and> list_all terminal (closing (offered seg))"
  have rest: "list_all ?good (split_games (fst (playGame_from L es st)))" for st
    using Cons.IH[of "snd (snd st)" "fst st" "fst (snd st)"] by simp
  have rest_hd: "?good (hd (split_games (fst (playGame_from L es st))))" for st
    using rest[of st] split_games_not_empty[of "fst (playGame_from L es st)"]
    by (cases "split_games (fst (playGame_from L es st))") simp_all
  have rest_tl: "list_all ?good (tl (split_games (fst (playGame_from L es st))))" for st
    using rest[of st] split_games_not_empty[of "fst (playGame_from L es st)"]
    by (cases "split_games (fst (playGame_from L es st))") simp_all
  show ?case
  proof (cases rule: playGame_pass_cases[where L=L and e=e and s=s and playerIndex=playerIndex
        and moveCount=moveCount])
    case over_no_db
    let ?tr = "fst (playGame_from L es (0, 0, initGame L s))"
    have "fst (playGame_from L (e # es) (playerIndex, moveCount, s)) =
        [GameOver (Outcome_String (chess_Outcome L (game s))),
         ErrorSavingFinal ''database connection is not initialized''] @ StartingNewGame # ?tr"
      using over_no_db by (simp add: case_prod_beta)
    then have "split_games (fst (playGame_from L (e # es) (playerIndex, moveCount, s))) =
        [GameOver (Outcome_String (chess_Outcome L (game s))),
         ErrorSavingFinal ''database connection is not initialized''] # split_games ?tr"
      by (simp only: split_games_append_over) simp
    with rest[of "(0, 0, initGame L s)"] show ?thesis
      by (simp add: closing_simps)
  next
    case (over_exec_error rows err)
    let ?tr = "fst (playGame_from L es (0, 0, initGame L s))"
    let ?pre = "[GameOver (Outcome_String (chess_Outcome L (game s))),
           Exec (snapshot L s (lastMove s) (players ! playerIndex)
                   (Outcome_String (chess_Outcome L (game s)))) (Some err),
           ErrorSavingFinal (''error saving game state: '' @ err)]"
    have "fst (playGame_from L (e # es) (playerIndex, moveCount, s)) = ?pre @ StartingNewGame # ?tr"
      using over_exec_error by (simp add: case_prod_beta)
    then have "split_games (fst (playGame_from L (e # es) (playerIndex, moveCount, s))) =
        ?pre # split_games ?tr"
      by (simp only: split_games_append_over) simp
    with rest[of "(0, 0, initGame L s)"] show ?thesis
      by (simp add: closing_simps)
  next
    case (over_saved rows g)
    let ?s1 = "initGame L (s\<lparr>db := Some (rows @ [row_of g]),
             gameStateChannel := offer (received_before_save e) g (gameStateChannel s)\<rparr>)"
    let ?tr = "fst (playGame_from L es (0, 0, ?s1))"
    let ?pre = "[GameOver (Outcome_String (chess_Outcome L (game s))),
           Exec g None,
           ChanSend AfterSave g (offer_sent (received_before_save e) g (gameStateChannel s))]"
    have g: "terminal g"
      using over_saved(1,4) by (simp add: terminal_snapshot Outcome_String_not_empty
          Outcome_String_in_progress)
    have "fst (playGame_from L (e # es) (playerIndex, moveCount, s)) = ?pre @ StartingNewGame # ?tr"
      using over_saved by (simp add: case_prod_beta)
    then have "split_games (fst (playGame_from L (e # es) (playerIndex, moveCount, s))) =
        ?pre # split_games ?tr"
      by (simp only: split_games_append_over) simp
    with rest[of "(0, 0, ?s1)"] g show ?thesis
      by (simp add: closing_simps)
  next
    case (gave_up pre)
    let ?st1 = "(playerIndex, moveCount, s)"
    let ?tr = "fst (playGame_from L es ?st1)"
    let ?evs = "StartingMove (moveCount + 1) (players ! playerIndex) # pre @
            [ErrorMakingMove (players ! playerIndex)
               ''failed to get a valid move after 3 attempts'', Sleep 5]"
    have new: "StartingNewGame \<notin> set ?evs" and off: "offered ?evs = []"
      using gave_up(2) by (simp_all add: attempt_log_silent offered_append)
    have "fst (playGame_from L (e # es) (playerIndex, moveCount, s)) = ?evs @ ?tr"
      using gave_up by (simp add: case_prod_beta)
    then have "split_games (fst (playGame_from L (e # es) (playerIndex, moveCount, s))) =
        (?evs @ hd (split_games ?tr)) # tl (split_games ?tr)"
      by (simp only: split_games_append_open[OF new])
    with rest_hd[of ?st1] rest_tl[of ?st1] off gave_up(1) show ?thesis
      by (simp add: offered_append del: split_games.simps)
  next
    case (panics pre msg k)
    let ?evs = "StartingMove (moveCount + 1) (players ! playerIndex) # pre @ [Panicked msg]"
    have new: "StartingNewGame \<notin> set ?evs" and off: "offered ?evs = []"
      using panics(2) by (simp_all add: attempt_log_silent offered_append)
    have "fst (playGame_from L (e # es) (playerIndex, moveCount, s)) = ?evs @ []"
      using panics by simp
    then have "split_games (fst (playGame_from L (e # es) (playerIndex, moveCount, s))) = [?evs]"
      by (simp only: split_games_append_open[OF new]) simp
    with off panics(1) show ?thesis
      by (simp add: closing_simps)
  next
    case (move_no_db pre move g k)
    let ?st1 = "(playerIndex, moveCount, apply_move g move s)"
    let ?tr = "fst (playGame_from L es ?st1)"
    let ?evs = "StartingMove (moveCount + 1) (players ! playerIndex) # pre @
            [AppliedMove move (players ! playerIndex),
             ErrorMakingMove (players ! playerIndex) ''database connection is not initialized'',
             Sleep 5]"
    have new: "StartingNewGame \<notin> set ?evs" and off: "offered ?evs = []"
      using move_no_db(2) by (simp_all add: attempt_log_silent offered_append)
    have "fst (playGame_from L (e # es) (playerIndex, moveCount, s)) = ?evs @ ?tr"
      using move_no_db by (simp add: case_prod_beta)
    then have "split_games (fst (playGame_from L (e # es) (playerIndex, moveCount, s))) =
        (?evs @ hd (split_games ?tr)) # tl (split_games ?tr)"
      by (simp only: split_games_append_open[OF new])
    with rest_hd[of ?st1] rest_tl[of ?st1] off move_no_db(1) show ?thesis
      by (simp add: offered_append del: split_games.simps)
  next
    case (move_exec_error pre move g k rows err)
    let ?st1 = "(playerIndex, moveCount, apply_move g move s)"
    let ?tr = "fst (playGame_from L es ?st1)"
    let ?evs = "StartingMove (moveCount + 1) (players ! playerIndex) # pre @
            [AppliedMove move (players ! playerIndex),
             Exec (snapshot L (apply_move g move s) move (players ! playerIndex) '''') (Some err),
             ErrorMakingMove (players ! playerIndex) (''error saving game state: '' @ err),
             Sleep 5]"
    have new: "StartingNewGame \<notin> set ?evs" and off: "offered ?evs = []"
      using move_exec_error(2) by (simp_all add: attempt_log_silent offered_append)
    have "fst (playGame_from L (e # es) (playerIndex, moveCount, s)) = ?evs @ ?tr"
      using move_exec_error by (simp add: case_prod_beta)
    then have "split_games (fst (playGame_from L (e # es) (playerIndex, moveCount, s))) =
        (?evs @ hd (split_games ?tr)) # tl (split_games ?tr)"
      by (simp only: split_games_append_open[OF new])
    with rest_hd[of ?st1] rest_tl[of ?st1] off move_exec_error(1) show ?thesis
      by (simp add: offered_append del: split_games.simps)
  next
    case (move_saved pre move g k rows g1 g2 ch1)
    let ?s1 = "(apply_move g move s)\<lparr>db := Some (rows @ [row_of g1]),
              gameStateChannel := offer (received_before_send e) g2 ch1\<rparr>"
    let ?st1 = "((playerIndex + 1) mod 2, moveCount + 1, ?s1)"
    let ?tr = "fst (playGame_from L es ?st1)"
    let ?evs = "StartingMove (moveCount + 1) (players ! playerIndex) # pre @
            [AppliedMove move (players ! playerIndex),
             Exec g1 None,
             ChanSend AfterSave g1 (offer_sent (received_before_save e) g1 (gameStateChannel s)),
             ChanSend InLoop g2 (offer_sent (received_before_send e) g2 ch1),
             Sleep 3]"
    have new: "StartingNewGame \<notin> set ?evs" and off: "offered ?evs = [g1, g2]"
      using move_saved(2) by (simp_all add: attempt_log_silent offered_append)
    have g1: "\<not> terminal g1"
      using move_saved(9) by (simp add: terminal_snapshot)
    have g2: "terminal g2 = (chess_Outcome L (game ?s1) \<noteq> NoOutcome)"
      using move_saved(10) by (simp add: terminal_snapshot Outcome_String_not_empty
          Outcome_String_in_progress apply_move_simps)
    have "fst (playGame_from L (e # es) (playerIndex, moveCount, s)) = ?evs @ ?tr"
      using move_saved(12) by (simp add: case_prod_beta)
    then have split: "split_games (fst (playGame_from L (e # es) (playerIndex, moveCount, s))) =
        (?evs @ hd (split_games ?tr)) # tl (split_games ?tr)"
      by (simp only: split_games_append_open[OF new])
    have after: "chess_Outcome L (game ?s1) \<noteq> NoOutcome \<longrightarrow>
        length (offered (hd (split_games ?tr))) \<le> 1 \<and>
        list_all terminal (offered (hd (split_games ?tr)))"
      using Cons.IH[of ?s1 "(playerIndex + 1) mod 2" "moveCount + 1"] by blast
    have "?good (?evs @ hd (split_games ?tr))"
    proof (cases "terminal g2")
      case True
      with g2 after have "length (offered (hd (split_games ?tr))) \<le> 1"
        "list_all terminal (offered (hd (split_games ?tr)))" by blast+
      with True g1 off show ?thesis
        by (simp add: offered_append closing_simps del: split_games.simps)
    next
      case False
      with g1 off rest_hd[of ?st1] show ?thesis
        by (simp add: offered_append closing_simps del: split_games.simps)
    qed
    with rest_tl[of ?st1] move_saved(1) show ?thesis
      by (simp only: split) simp
  qed
qed

text \<open>
  C5, as stated, fails on the code. In the game 1. f3 e5 2. g4 Qh4 mate two of the
  snapshots that the channel takes carry the outcome \<^verbatim>\<open>0-1\<close>: the one the loop body
  builds after the mating move, and the one \<^verbatim>\<open>saveGameState\<close> builds after the loop.
\<close>

theorem two_terminal_snapshots_sent:
  "filter (\<lambda>(site, g, sent). terminal g)
     (sends (fst (playGame fools_mate fools_mate_game (main_state fools_mate)))) =
   [(InLoop, snap ''Qh4#'' ''anthropic'' [''f3'', ''e5'', ''g4'', ''Qh4#''] ''0-1'', True),
    (AfterSave, snap ''Qh4#'' ''openai'' [''f3'', ''e5'', ''g4'', ''Qh4#''] ''0-1'', True)]"
  by (simp add: fools_mate_whole_game terminal_def snap_def)

text \<open>
  C5, amended. In every game of a run from \<^verbatim>\<open>main\<close>, at most two of the snapshots
  offered to the channel carry a terminal outcome, and they are the last ones offered
  in that game: every snapshot offered before them carries the empty string or
  \<^verbatim>\<open>*\<close>. (The two are the snapshot of the loop body for the move that ended the game
  and the snapshot built after the loop.)
\<close>

theorem at_most_two_terminal_snapshots:
  "list_all
     (\<lambda>seg. length (filter terminal (offered seg)) \<le> 2 \<and>
            offered seg = takeWhile (\<lambda>g. \<not> terminal g) (offered seg) @ filter terminal (offered seg))
     (split_games (fst (playGame L es (main_state L))))"
proof -
  have "list_all (\<lambda>seg. length (closing (offered seg)) \<le> 2 \<and> list_all terminal (closing (offered seg)))
     (split_games (fst (playGame L es (main_state L))))"
    using games_close[of L "main_state L" es 0 0] by (simp add: playGame_def)
  moreover have "length (filter terminal gs) \<le> 2 \<and>
      gs = takeWhile (\<lambda>g. \<not> terminal g) gs @ filter terminal gs"
    if "length (closing gs) \<le> 2 \<and> list_all terminal (closing gs)" for gs
  proof -
    from that have "filter terminal gs = closing gs"
      by (simp add: filter_terminal_closing)
    with that show ?thesis
      by (simp add: closing_def)
  qed
  ultimately show ?thesis
    by (simp add: list_all_iff)
qed

text \<open>
  For example: the run of the example game has two parts, the game with its two
  terminal snapshots and the new game, in which nothing has been offered yet.
\<close>

theorem at_most_two_terminal_snapshots_witness:
  "map (filter terminal \<circ> offered)
     (split_games (fst (playGame fools_mate fools_mate_game (main_state fools_mate)))) =
     [[snap ''Qh4#'' ''anthropic'' [''f3'', ''e5'', ''g4'', ''Qh4#''] ''0-1'',
       snap ''Qh4#'' ''openai'' [''f3'', ''e5'', ''g4'', ''Qh4#''] ''0-1''], []] \<and>
   list_all
     (\<lambda>seg. length (filter terminal (offered seg)) \<le> 2 \<and>
            offered seg = takeWhile (\<lambda>g. \<not> terminal g) (offered seg) @ filter terminal (offered seg))
     (split_games (fst (playGame fools_mate fools_mate_game (main_state fools_mate))))"
proof
  show "map (filter terminal \<circ> offered)
     (split_games (fst (playGame fools_mate fools_mate_game (main_state fools_mate)))) =
     [[snap ''Qh4#'' ''anthropic'' [''f3'', ''e5'', ''g4'', ''Qh4#''] ''0-1'',
       snap ''Qh4#'' ''openai'' [''f3'', ''e5'', ''g4'', ''Qh4#''] ''0-1''], []]"
    by (simp add: fools_mate_whole_game terminal_def snap_def)
  show "list_all
     (\<lambda>seg. length (filter terminal (offered seg)) \<le> 2 \<and>
            offered seg = takeWhile (\<lambda>g. \<not> terminal g) (offered seg) @ filter terminal (offered seg))
     (split_games (fst (playGame fools_mate fools_mate_game (main_state fools_mate))))"
    by (rule at_most_two_terminal_snapshots)
qed

section \<open>Several observers on one channel\<close>

lemma system_run_Nil: "system_run [] sys = sys"
  by (simp add: system_run_def)

lemma system_run_Cons: "system_run (a # acts) sys = system_run acts (system_step sys a)"
  by (simp add: system_run_def)

text \<open>
  A pass of the handler leaves the channel alone, or takes its oldest snapshot and
  either loses it or writes it to its own peer.
\<close>

lemma sse_pass_cases:
  obtains (waits) ob' where "sse_pass c ch ob = (ch, ob')" "frames ob' = frames ob"
  | (lost) g rest ob' where "ch = g # rest" "sse_pass c ch ob = (rest, ob')"
      "frames ob' = frames ob"
  | (written) g rest ob' where "ch = g # rest" "sse_pass c ch ob = (rest, ob')"
      "frames ob' = frames ob @ [g]"
proof (cases "running ob")
  case False
  then show ?thesis by (intro waits[of ob]) (simp_all add: sse_pass_def)
next
  case True
  show ?thesis
  proof (cases c)
    case CtxDone
    with True show ?thesis
      by (intro waits[of "ob\<lparr>running := False\<rparr>"]) (simp_all add: sse_pass_def)
  next
    case (ChannelItem w)
    show ?thesis
    proof (cases ch)
      case Nil
      with True ChannelItem show ?thesis
        by (intro waits[of ob]) (simp_all add: sse_pass_def)
    next
      case (Cons g rest)
      show ?thesis
      proof (cases w)
        case MarshalError
        with True ChannelItem Cons show ?thesis
          by (intro lost[of g rest ob]) (simp_all add: sse_pass_def)
      next
        case WriteError
        with True ChannelItem Cons show ?thesis
          by (intro lost[of g rest "ob\<lparr>running := False\<rparr>"]) (simp_all add: sse_pass_def)
      next
        case FlushError
        with True ChannelItem Cons show ?thesis
          by (intro lost[of g rest "ob\<lparr>running := False\<rparr>"]) (simp_all add: sse_pass_def)
      next
        case Written
        with True ChannelItem Cons show ?thesis
          by (intro written[of g rest "ob\<lparr>frames := frames ob @ [g]\<rparr>"])
             (simp_all add: sse_pass_def)
      qed
    qed
  qed
qed

lemma shuffles_subseq: "zs \<in> shuffles xs ys \<Longrightarrow> subseq xs zs \<and> subseq ys zs"
  by (induction xs ys arbitrary: zs rule: shuffles.induct) auto

text \<open>
  What two different observers have been sent since some moment, merged in the order
  in which they took it off the channel and followed by what is still in the channel,
  is a subsequence of what was in the channel at that moment and what was published
  since: no snapshot is sent to both.
\<close>

lemma observers_disjoint:
  "i \<noteq> j \<Longrightarrow>
   \<exists>xs ys. frames (snd (system_run acts (ch, obs)) i) = frames (obs i) @ xs \<and>
     frames (snd (system_run acts (ch, obs)) j) = frames (obs j) @ ys \<and>
     (\<exists>zs\<in>shuffles xs ys. subseq (zs @ fst (system_run acts (ch, obs))) (ch @ published acts))"
proof (induction acts arbitrary: ch obs)
  case Nil
  show ?case by (simp add: system_run_Nil)
next
  case (Cons a acts)
  note ij = Cons.prems
  have step: ?case
    if run: "system_step (ch, obs) a = (ch1, obs1)"
      and fi: "frames (obs1 i) = frames (obs i) @ xs0"
      and fj: "frames (obs1 j) = frames (obs j) @ ys0"
      and sh: "\<And>xs ys zs. zs \<in> shuffles xs ys \<Longrightarrow>
          subseq (zs @ fst (system_run acts (ch1, obs1))) (ch1 @ published acts) \<Longrightarrow>
          \<exists>zs'\<in>shuffles (xs0 @ xs) (ys0 @ ys).
            subseq (zs' @ fst (system_run acts (ch1, obs1))) (ch @ published (a # acts))"
    for ch1 obs1 xs0 ys0
  proof -
    from Cons.IH[OF ij, of ch1 obs1] obtain xs ys zs where
      r: "frames (snd (system_run acts (ch1, obs1)) i) = frames (obs1 i) @ xs"
        "frames (snd (system_run acts (ch1, obs1)) j) = frames (obs1 j) @ ys"
        "zs \<in> shuffles xs ys"
        "subseq (zs @ fst (system_run acts (ch1, obs1))) (ch1 @ published acts)"
      by blast
    from sh[OF r(3,4)] obtain zs' where
      "zs' \<in> shuffles (xs0 @ xs) (ys0 @ ys)"
      "subseq (zs' @ fst (system_run acts (ch1, obs1))) (ch @ published (a # acts))"
      by blast
    with r(1,2) fi fj show ?thesis
      by (intro exI[of _ "xs0 @ xs"] exI[of _ "ys0 @ ys"]) (auto simp: system_run_Cons run)
  qed
  show ?case
  proof (cases a)
    case (Publish x)
    have sub: "subseq (fst (select_send ch x) @ published acts) (ch @ x # published acts)"
      by (auto simp: select_send_eq subseq_append')
    show ?thesis
    proof (rule step[of "fst (select_send ch x)" obs "[]" "[]"])
      fix xs ys zs
      assume "zs \<in> shuffles xs ys"
        and "subseq (zs @ fst (system_run acts (fst (select_send ch x), obs)))
               (fst (select_send ch x) @ published acts)"
      then show "\<exists>zs'\<in>shuffles ([] @ xs) ([] @ ys).
          subseq (zs' @ fst (system_run acts (fst (select_send ch x), obs)))
            (ch @ published (a # acts))"
        using sub subseq_order.trans by (auto simp: Publish)
    qed (simp_all add: Publish)
  next
    case (Observe k c)
    show ?thesis
    proof (cases rule: sse_pass_cases[of c ch "obs k"])
      case (waits ob')
      show ?thesis
      proof (rule step[of ch "obs(k := ob')" "[]" "[]"])
        fix xs ys zs
        assume "zs \<in> shuffles xs ys"
          and "subseq (zs @ fst (system_run acts (ch, obs(k := ob')))) (ch @ published acts)"
        then show "\<exists>zs'\<in>shuffles ([] @ xs) ([] @ ys).
            subseq (zs' @ fst (system_run acts (ch, obs(k := ob')))) (ch @ published (a # acts))"
          by (auto simp: Observe)
      qed (use waits in \<open>simp_all add: Observe\<close>)
    next
      case (lost g rest ob')
      show ?thesis
      proof (rule step[of rest "obs(k := ob')" "[]" "[]"])
        fix xs ys zs
        assume "zs \<in> shuffles xs ys"
          and "subseq (zs @ fst (system_run acts (rest, obs(k := ob')))) (rest @ published acts)"
        then show "\<exists>zs'\<in>shuffles ([] @ xs) ([] @ ys).
            subseq (zs' @ fst (system_run acts (rest, obs(k := ob')))) (ch @ published (a # acts))"
          using lost(1) by (auto simp: Observe intro: list_emb_Cons)
      qed (use lost in \<open>simp_all add: Observe\<close>)
    next
      case (written g rest ob')
      consider (i) "k = i" | (j) "k = j" | (other) "k \<noteq> i" "k \<noteq> j"
        by blast
      then show ?thesis
      proof cases
        case i
        show ?thesis
        proof (rule step[of rest "obs(k := ob')" "[g]" "[]"])
          fix xs ys zs
          assume "zs \<in> shuffles xs ys"
            and "subseq (zs @ fst (system_run acts (rest, obs(k := ob')))) (rest @ published acts)"
          then have "g # zs \<in> shuffles ([g] @ xs) ([] @ ys)"
            "subseq ((g # zs) @ fst (system_run acts (rest, obs(k := ob'))))
               (ch @ published (a # acts))"
            using written(1) by (auto simp: Observe intro: Cons_in_shuffles_leftI)
          then show "\<exists>zs'\<in>shuffles ([g] @ xs) ([] @ ys).
              subseq (zs' @ fst (system_run acts (rest, obs(k := ob'))))
                (ch @ published (a # acts))"
            by blast
        qed (use written i ij in \<open>simp_all add: Observe\<close>)
      next
        case j
        show ?thesis
        proof (rule step[of rest "obs(k := ob')" "[]" "[g]"])
          fix xs ys zs
          assume "zs \<in> shuffles xs ys"
            and "subseq (zs @ fst (system_run acts (rest, obs(k := ob')))) (rest @ published acts)"
          then have "g # zs \<in> shuffles ([] @ xs) ([g] @ ys)"
            "subseq ((g # zs) @ fst (system_run acts (rest, obs(k := ob'))))
               (ch @ published (a # acts))"
            using written(1) by (auto simp: Observe intro: Cons_in_shuffles_rightI)
          then show "\<exists>zs'\<in>shuffles ([] @ xs) ([g] @ ys).
              subseq (zs' @ fst (system_run acts (rest, obs(k := ob'))))
                (ch @ published (a # acts))"
            by blast
        qed (use written j ij in \<open>simp_all add: Observe\<close>)
      next
        case other
        show ?thesis
        proof (rule step[of rest "obs(k := ob')" "[]" "[]"])
          fix xs ys zs
          assume "zs \<in> shuffles xs ys"
            and "subseq (zs @ fst (system_run acts (rest, obs(k := ob')))) (rest @ published acts)"
          then show "\<exists>zs'\<in>shuffles ([] @ xs) ([] @ ys).
              subseq (zs' @ fst (system_run acts (rest, obs(k := ob')))) (ch @ published (a # acts))"
            using written(1) by (auto simp: Observe intro: list_emb_Cons)
        qed (use written other in \<open>simp_all add: Observe\<close>)
      qed
    qed
  qed
qed

text \<open>
  C2, as stated, fails on the code. Two observers are attached and one snapshot is
  published. The observer whose \<^verbatim>\<open>select\<close> receives it first takes it off the
  channel: observer 0 is sent the snapshot and observer 1, still attached, is sent
  nothing. And when the write of observer 0 fails because its peer is gone, the
  snapshot it took is lost to observer 1 as well, which would have been sent it had
  observer 0 not been there.
\<close>

theorem one_observer_takes_the_snapshot:
  "(case system_run [Publish (snap ''f3'' ''openai'' [''f3''] ''*''),
                     Observe 0 (ChannelItem Written), Observe 1 (ChannelItem Written)]
           ([], \<lambda>i. attached) of
      (ch, obs) \<Rightarrow>
        frames (obs 0) = [snap ''f3'' ''openai'' [''f3''] ''*''] \<and> frames (obs 1) = [] \<and>
        running (obs 0) \<and> running (obs 1) \<and> ch = []) \<and>
   frames (snd (system_run [Publish (snap ''f3'' ''openai'' [''f3''] ''*''),
                     Observe 0 (ChannelItem WriteError), Observe 1 (ChannelItem Written)]
           ([], \<lambda>i. attached)) 1) = [] \<and>
   frames (snd (system_run [Publish (snap ''f3'' ''openai'' [''f3''] ''*''),
                     Observe 1 (ChannelItem Written)]
           ([], \<lambda>i. attached)) 1) = [snap ''f3'' ''openai'' [''f3''] ''*'']"
  by (simp add: system_run_def select_send_eq sse_pass_def attached_def)

text \<open>
  C2, amended. Observers attached to the channel compete for its snapshots. Take any
  state of the channel and its observers, and any interleaving of publishes and
  handler passes from there. A snapshot is sent to at most one observer: for two
  different observers, what they were sent since (\<open>xs\<close> and \<open>ys\<close>) can be merged
  into one list, each part in its order, that together with what is still in the
  channel is a subsequence of what was in the channel and what was published since.
  So each of the two is sent an ordered subsequence of these snapshots, the two
  subsequences share none of them, and what the two were sent and what is still in the
  channel is together no more than was in the channel and was published.
\<close>

theorem observers_compete:
  "i \<noteq> j \<longrightarrow>
   (case system_run acts (ch_start, obs_start) of
      (ch, obs) \<Rightarrow>
        (\<exists>xs ys.
           frames (obs i) = frames (obs_start i) @ xs \<and> frames (obs j) = frames (obs_start j) @ ys \<and>
           (\<exists>zs\<in>shuffles xs ys. subseq (zs @ ch) (ch_start @ published acts)) \<and>
           subseq xs (ch_start @ published acts) \<and> subseq ys (ch_start @ published acts) \<and>
           length xs + length ys + length ch \<le> length ch_start + length (published acts)))"
proof
  assume ij: "i \<noteq> j"
  let ?sys = "system_run acts (ch_start, obs_start)"
  from observers_disjoint[OF ij, of acts ch_start obs_start] obtain xs ys zs where
    sent: "frames (snd ?sys i) = frames (obs_start i) @ xs" "frames (snd ?sys j) = frames (obs_start j) @ ys"
    and zs: "zs \<in> shuffles xs ys" "subseq (zs @ fst ?sys) (ch_start @ published acts)"
    by blast
  have "subseq zs (zs @ fst ?sys)"
    by (rule list_emb_prefix) simp
  with zs(2) have sub: "subseq zs (ch_start @ published acts)"
    using subseq_order.trans by blast
  have "subseq xs zs" "subseq ys zs"
    using shuffles_subseq[OF zs(1)] by simp_all
  with sub have each: "subseq xs (ch_start @ published acts)" "subseq ys (ch_start @ published acts)"
    using subseq_order.trans by blast+
  have "length (zs @ fst ?sys) \<le> length (ch_start @ published acts)"
    using zs(2) by (rule list_emb_length)
  then have "length xs + length ys + length (fst ?sys) \<le> length ch_start + length (published acts)"
    using length_shuffles[OF zs(1)] by simp
  with sent zs each show "case ?sys of
      (ch, obs) \<Rightarrow>
        (\<exists>xs ys.
           frames (obs i) = frames (obs_start i) @ xs \<and> frames (obs j) = frames (obs_start j) @ ys \<and>
           (\<exists>zs\<in>shuffles xs ys. subseq (zs @ ch) (ch_start @ published acts)) \<and>
           subseq xs (ch_start @ published acts) \<and> subseq ys (ch_start @ published acts) \<and>
           length xs + length ys + length ch \<le> length ch_start + length (published acts))"
    unfolding case_prod_beta by blast
qed

text \<open>
  For example: two observers are attached to an empty channel; one snapshot is
  published, and each observer has a pass that can write. Observer 0 is sent the
  snapshot and observer 1 nothing.
\<close>

theorem observers_compete_witness:
  "(0::nat) \<noteq> 1 \<and>
   frames (snd (system_run [Publish (snap ''f3'' ''openai'' [''f3''] ''*''),
                     Observe 0 (ChannelItem Written), Observe 1 (ChannelItem Written)]
           ([], \<lambda>k. attached)) 0) = [snap ''f3'' ''openai'' [''f3''] ''*''] \<and>
   frames (snd (system_run [Publish (snap ''f3'' ''openai'' [''f3''] ''*''),
                     Observe 0 (ChannelItem Written), Observe 1 (ChannelItem Written)]
           ([], \<lambda>k. attached)) 1) = [] \<and>
   (\<exists>zs\<in>shuffles [snap ''f3'' ''openai'' [''f3''] ''*''] [].
      subseq zs [snap ''f3'' ''openai'' [''f3''] ''*''])"
  using observers_compete[where i=0 and j=1 and ch_start="[]" and obs_start="\<lambda>k. attached" and
      acts="[Publish (snap ''f3'' ''openai'' [''f3''] ''*''),
             Observe 0 (ChannelItem Written), Observe 1 (ChannelItem Written)]"]
  by (simp add: case_prod_beta system_run_def select_send_eq sse_pass_def attached_def)

end
